theory Spec2Isabelle
  imports Main
begin

section \<open>Python string and bytes primitives used by the client\<close>

text \<open>
  A byte string is the list of its bytes, one \<^typ>\<open>char\<close> for each. A Python string (a
  sequence of Unicode code points) is represented by its UTF-8 encoding, so it too is a
  list of \<^typ>\<open>char\<close>: an ASCII character is one \<^typ>\<open>char\<close>, any other character is a
  lead byte followed by one to three continuation bytes. With this representation
  \<open>str.encode()\<close> is the identity.
\<close>

definition crlf :: string where
  "crlf = [CHR 0x0D, CHR 0x0A]"

definition encode :: "string \<Rightarrow> string" where
  "encode s = s"

definition is_ascii :: "char \<Rightarrow> bool" where
  "is_ascii c = ((of_char c :: nat) < 128)"

text \<open>A continuation byte of UTF-8 is one from 0x80 to 0xBF.\<close>

definition is_cont :: "char \<Rightarrow> bool" where
  "is_cont c = (128 \<le> (of_char c :: nat) \<and> (of_char c :: nat) < 192)"

subsection \<open>\<open>bytes.decode\<close>\<close>

text \<open>
  The well-formed byte sequences of UTF-8: for a lead byte, the ranges in which the
  bytes that follow it have to lie, one range for each; \<open>None\<close> for a byte that cannot
  start a character (0x80 to 0xC1 and 0xF5 to 0xFF).
\<close>

definition utf8_ranges :: "char \<Rightarrow> (nat \<times> nat) list option" where
  "utf8_ranges c =
     (let b = (of_char c :: nat) in
      if 0xC2 \<le> b \<and> b \<le> 0xDF then Some [(0x80, 0xBF)]
      else if b = 0xE0 then Some [(0xA0, 0xBF), (0x80, 0xBF)]
      else if b = 0xED then Some [(0x80, 0x9F), (0x80, 0xBF)]
      else if 0xE1 \<le> b \<and> b \<le> 0xEF then Some [(0x80, 0xBF), (0x80, 0xBF)]
      else if b = 0xF0 then Some [(0x90, 0xBF), (0x80, 0xBF), (0x80, 0xBF)]
      else if 0xF1 \<le> b \<and> b \<le> 0xF3 then Some [(0x80, 0xBF), (0x80, 0xBF), (0x80, 0xBF)]
      else if b = 0xF4 then Some [(0x80, 0x8F), (0x80, 0xBF), (0x80, 0xBF)]
      else None)"

text \<open>How many of the bytes at the head of \<open>cs\<close> lie in the ranges, one after the
  other.\<close>

fun matched :: "(nat \<times> nat) list \<Rightarrow> string \<Rightarrow> nat" where
  "matched [] cs = 0"
| "matched (r # rs) [] = 0"
| "matched (r # rs) (c # cs) =
     (if fst r \<le> (of_char c :: nat) \<and> (of_char c :: nat) \<le> snd r
      then Suc (matched rs cs) else 0)"

lemma matched_le: "matched rs cs \<le> length rs"
  by (induction rs cs rule: matched.induct) simp_all

text \<open>The replacement character U+FFFD, in UTF-8.\<close>

definition replacement :: string where
  "replacement = [CHR 0xEF, CHR 0xBF, CHR 0xBD]"

text \<open>
  \<open>b.decode('utf-8', 'replace')\<close>: an ASCII byte and a well-formed sequence stand for
  themselves; a byte that cannot start a character, and a lead byte with the bytes after
  it that go on a well-formed sequence without ending it, are replaced by U+FFFD.
\<close>

function decode_replace :: "string \<Rightarrow> string" where
  "decode_replace [] = []"
| "decode_replace (c # cs) =
     (if is_ascii c then c # decode_replace cs
      else (case utf8_ranges c of
              None \<Rightarrow> replacement @ decode_replace cs
            | Some rs \<Rightarrow>
                (if matched rs cs = length rs then c # take (matched rs cs) cs else replacement)
                  @ decode_replace (drop (matched rs cs) cs)))"
  by pat_completeness auto

termination decode_replace
  by (relation "measure length") simp_all

text \<open>The byte strings that are well-formed UTF-8: \<open>b.decode()\<close> raises
  \<open>UnicodeError\<close> on any other.\<close>

function utf8_valid :: "string \<Rightarrow> bool" where
  "utf8_valid [] = True"
| "utf8_valid (c # cs) =
     (if is_ascii c then utf8_valid cs
      else (case utf8_ranges c of
              None \<Rightarrow> False
            | Some rs \<Rightarrow> matched rs cs = length rs \<and> utf8_valid (drop (matched rs cs) cs)))"
  by pat_completeness auto

termination utf8_valid
  by (relation "measure length") simp_all

subsection \<open>Length and slices of a string\<close>

text \<open>
  \<open>len(s)\<close>, \<open>s[:n]\<close> and \<open>s[n:]\<close> of a string count characters, not bytes: a character
  is a byte together with the continuation bytes that follow it. (On a byte string they
  are \<^const>\<open>length\<close>, \<^const>\<open>take\<close> and \<^const>\<open>drop\<close>.)
\<close>

definition cp_len :: "string \<Rightarrow> nat" where
  "cp_len s = length (filter (\<lambda>c. \<not> is_cont c) s)"

fun cp_take :: "nat \<Rightarrow> string \<Rightarrow> string" where
  "cp_take 0 s = []"
| "cp_take (Suc n) [] = []"
| "cp_take (Suc n) (c # cs) = c # takeWhile is_cont cs @ cp_take n (dropWhile is_cont cs)"

fun cp_drop :: "nat \<Rightarrow> string \<Rightarrow> string" where
  "cp_drop 0 s = s"
| "cp_drop (Suc n) [] = []"
| "cp_drop (Suc n) (c # cs) = cp_drop n (dropWhile is_cont cs)"

text \<open>\<open>s[n]\<close>, as the string of that one character.\<close>

definition cp_nth :: "string \<Rightarrow> nat \<Rightarrow> string" where
  "cp_nth s n = cp_take 1 (cp_drop n s)"

subsection \<open>Stripping, case, splitting, joining\<close>

text \<open>\<open>s.lstrip(chars)\<close>, \<open>s.rstrip(chars)\<close>, \<open>s.strip(chars)\<close>: every leading
  (trailing) character that occurs in \<open>chars\<close> is removed.\<close>

definition lstrip :: "string \<Rightarrow> string \<Rightarrow> string" where
  "lstrip chars s = dropWhile (\<lambda>c. c \<in> set chars) s"

definition rstrip :: "string \<Rightarrow> string \<Rightarrow> string" where
  "rstrip chars s = rev (dropWhile (\<lambda>c. c \<in> set chars) (rev s))"

definition strip :: "string \<Rightarrow> string \<Rightarrow> string" where
  "strip chars s = lstrip chars (rstrip chars s)"

text \<open>The ASCII whitespace of \<open>strip()\<close>, \<open>split()\<close> and \<open>int()\<close>:
  space, tab, line feed, carriage return, vertical tab, form feed.\<close>

definition whitespace :: string where
  "whitespace = [CHR 0x20, CHR 0x09, CHR 0x0A, CHR 0x0D, CHR 0x0B, CHR 0x0C]"

definition strip_ws :: "string \<Rightarrow> string" where
  "strip_ws s = strip whitespace s"

text \<open>\<open>s.upper()\<close>: the letters \<open>a\<close> to \<open>z\<close> become \<open>A\<close> to \<open>Z\<close>; as in MicroPython, no
  other character changes.\<close>

definition upper_char :: "char \<Rightarrow> char" where
  "upper_char c = (if c \<in> set ''abcdefghijklmnopqrstuvwxyz''
                  then char_of (of_char c - (32::nat)) else c)"

definition upper :: "string \<Rightarrow> string" where
  "upper s = map upper_char s"

text \<open>\<open>s.split()\<close>: the maximal runs of non-whitespace characters, in order.\<close>

fun split_acc :: "string \<Rightarrow> string \<Rightarrow> string list" where
  "split_acc [] cur = (if cur = [] then [] else [cur])"
| "split_acc (c # cs) cur =
     (if c \<in> set whitespace
      then (if cur = [] then split_acc cs [] else cur # split_acc cs [])
      else split_acc cs (cur @ [c]))"

definition split :: "string \<Rightarrow> string list" where
  "split s = split_acc s []"

text \<open>\<open>sep.join(xs)\<close>.\<close>

fun join :: "string \<Rightarrow> string list \<Rightarrow> string" where
  "join sep [] = []"
| "join sep [x] = x"
| "join sep (x # y # ys) = x @ sep @ join sep (y # ys)"

subsection \<open>\<open>int(s)\<close> on a string\<close>

definition is_digit :: "char \<Rightarrow> bool" where
  "is_digit c = (c \<in> set ''0123456789'')"

definition digit_val :: "char \<Rightarrow> int" where
  "digit_val c = int (of_char c) - 48"

text \<open>The value of a digit string, most significant digit first.\<close>

definition digits_val :: "string \<Rightarrow> int" where
  "digits_val ds = foldl (\<lambda>acc c. 10 * acc + digit_val c) 0 ds"

text \<open>Digits with single underscores between them: \<open>1_0\<close> is accepted,
  \<open>_10\<close>, \<open>10_\<close> and \<open>1__0\<close> are not.\<close>

fun digit_groups :: "string \<Rightarrow> bool" where
  "digit_groups [] = False"
| "digit_groups [c] = is_digit c"
| "digit_groups (c # d # ds) =
     (is_digit c \<and> (if d = CHR ''_'' then digit_groups ds else digit_groups (d # ds)))"

datatype exn =
    ConnectFailed                            \<comment> \<open>\<open>Connect failed: {e}\<close>\<close>
  | SSLWrapFailed                            \<comment> \<open>\<open>SSL wrap failed: {e}\<close>\<close>
  | NoGreeting                               \<comment> \<open>\<open>No initial greeting received from server\<close>\<close>
  | SMTPConnectFailed int                    \<comment> \<open>\<open>SMTP connect failed: {code}\<close>\<close>
  | EhloFailed int "string list"             \<comment> \<open>\<open>EHLO failed: {code}, {resp}\<close>\<close>
  | StartTLSFailed int "string list"         \<comment> \<open>\<open>STARTTLS failed: {code}, {resp}\<close>\<close>
  | StartTLSWrapFailed                       \<comment> \<open>\<open>STARTTLS SSL wrap failed: {e}\<close>\<close>
  | EhloAfterStartTLSFailed int "string list"
      \<comment> \<open>\<open>EHLO after STARTTLS failed: {code}, {resp}\<close>\<close>
  | NoResponseFor string
      \<comment> \<open>\<open>No response from server for '{cmd_str}' (connection closed?).\<close>\<close>
  | InvalidLine string string
      \<comment> \<open>\<open>Invalid SMTP response line for '{cmd_str}': {line_str}\<close>\<close>
  | InvalidCode string string
      \<comment> \<open>\<open>Invalid SMTP response code for '{cmd_str}': {line_str[:3]!r}\<close>\<close>
  | NoSMTPResponse                           \<comment> \<open>\<open>No SMTP response\<close>\<close>
  | NoAuthMethods                            \<comment> \<open>\<open>No auth methods available\<close>\<close>
  | UsernamePromptFailed int "string list"   \<comment> \<open>\<open>Username prompt failed: {code}, {resp}\<close>\<close>
  | UsernameFailed int "string list"         \<comment> \<open>\<open>Username failed: {code}, {resp}\<close>\<close>
  | Exception string                         \<comment> \<open>an \<open>Exception\<close> with this very message\<close>
  | AuthFailed int "string list"             \<comment> \<open>\<open>Auth failed: {code}, {resp}\<close>\<close>
  | SenderRefused int "string list"          \<comment> \<open>\<open>Sender refused: {code}, {resp}\<close>\<close>
  | AllRecipientsRefused int "string list"   \<comment> \<open>\<open>All recipients refused: {code}, {resp}\<close>\<close>
  | DataRefused int "string list"            \<comment> \<open>\<open>Data refused: {code}, {resp}\<close>\<close>
  | NoSendResponse                           \<comment> \<open>\<open>No SMTP send response\<close>\<close>
  | ValueError                               \<comment> \<open>raised by \<open>int()\<close>\<close>
  | OSError                                  \<comment> \<open>raised by the socket (timeout)\<close>
  | UnicodeError                             \<comment> \<open>raised by \<open>decode()\<close>\<close>

text \<open>\<open>b.decode()\<close>, which is strict.\<close>

definition decode :: "string \<Rightarrow> exn + string" where
  "decode b = (if utf8_valid b then Inr b else Inl UnicodeError)"

text \<open>\<open>int(s)\<close>: surrounding whitespace is ignored, one sign may precede the digits;
  anything else raises \<open>ValueError\<close>.\<close>

definition py_int :: "string \<Rightarrow> exn + int" where
  "py_int s =
     (let t = strip_ws s;
          (sgn, ds) = (case t of
                         [] \<Rightarrow> (1, [])
                       | c # r \<Rightarrow> if c = CHR ''-'' then (- 1, r)
                                  else if c = CHR ''+'' then (1, r) else (1, t))
      in if digit_groups ds
         then Inr (sgn * digits_val (filter (\<lambda>c. c \<noteq> CHR ''_'') ds))
         else Inl ValueError)"

section \<open>The socket\<close>

text \<open>
  The stream the session owns. \<open>inp\<close> holds the bytes the server sends, in order;
  when they are used up the peer has either closed the connection (a read returns what
  is left, at last the empty byte string) or stays silent (\<open>stalls\<close>: the read runs into
  the timeout set by \<open>settimeout\<close> and raises \<open>OSError\<close>). \<open>out\<close> holds the chunks
  written, one entry per \<open>write\<close> call, oldest first. \<open>tls\<close> tells whether the stream
  has been wrapped by \<open>ssl.wrap_socket\<close>, \<open>wrap_fails\<close> whether that handshake
  fails, \<open>closes\<close> counts the calls of \<open>close\<close>.
\<close>

record sock =
  inp :: string
  stalls :: bool
  out :: "string list"
  tls :: bool
  wrap_fails :: bool
  closes :: nat

text \<open>The bytes up to and including the first line feed, and the rest.\<close>

fun split_line :: "string \<Rightarrow> string \<times> string" where
  "split_line [] = ([], [])"
| "split_line (c # cs) =
     (if c = CHR 0x0A then ([c], cs)
      else (case split_line cs of (l, r) \<Rightarrow> (c # l, r)))"

definition sock_readline :: "sock \<Rightarrow> (exn + string) \<times> sock" where
  "sock_readline s =
     (case split_line (inp s) of (l, r) \<Rightarrow>
        if CHR 0x0A \<notin> set l \<and> stalls s then (Inl OSError, s\<lparr>inp := []\<rparr>)
        else (Inr l, s\<lparr>inp := r\<rparr>))"

definition sock_read :: "nat \<Rightarrow> sock \<Rightarrow> (exn + string) \<times> sock" where
  "sock_read n s =
     (if length (inp s) < n \<and> stalls s then (Inl OSError, s\<lparr>inp := []\<rparr>)
      else (Inr (take n (inp s)), s\<lparr>inp := drop n (inp s)\<rparr>))"

definition sock_write :: "string \<Rightarrow> sock \<Rightarrow> sock" where
  "sock_write b s = s\<lparr>out := out s @ [b]\<rparr>"

definition sock_close :: "sock \<Rightarrow> sock" where
  "sock_close s = s\<lparr>closes := Suc (closes s)\<rparr>"

definition wrap_socket :: "sock \<Rightarrow> exn + sock" where
  "wrap_socket s = (if wrap_fails s then Inl OSError else Inr (s\<lparr>tls := True\<rparr>))"

section \<open>The session (class \<open>SMTP\<close> of umailesp.py)\<close>

text \<open>
  The object has two attributes, \<open>username\<close> and \<open>_sock\<close>. Every method takes the
  session and returns its result, or the exception it raises, together with the session
  as the method left it. The calls of \<open>print\<close> and \<open>time.sleep\<close> change neither the
  session nor the stream and are left out.
\<close>

record session =
  username :: "string option"
  sock :: sock

type_synonym reply = "int \<times> string list"

type_synonym 'a res = "(exn + 'a) \<times> session"

subsection \<open>\<open>cmd\<close>\<close>

function cmd_loop :: "string \<Rightarrow> sock \<Rightarrow> string list \<Rightarrow> (exn + reply) \<times> sock" where
  "cmd_loop cmd_str s all_lines =
     (case sock_readline s of
        (Inl e, s') \<Rightarrow> (Inl e, s')
      | (Inr line, s') \<Rightarrow>
          if line = [] then (Inl (NoResponseFor cmd_str), s')
          else let line_str = rstrip crlf (decode_replace line) in
            if cp_len line_str < 3 then (Inl (InvalidLine cmd_str line_str), s')
            else (case py_int (cp_take 3 line_str) of
                    Inl _ \<Rightarrow> (Inl (InvalidCode cmd_str (cp_take 3 line_str)), s')
                  | Inr code \<Rightarrow>
                      let text_after_code = lstrip ''- '' (cp_drop 3 line_str);
                          all_lines' = all_lines @ [text_after_code]
                      in if cp_len line_str < 4 \<or> cp_nth line_str 3 \<noteq> ''-''
                         then (Inr (code, all_lines'), s')
                         else cmd_loop cmd_str s' all_lines'))"
  by pat_completeness auto

lemma split_line_length:
  "split_line xs = (l, r) \<Longrightarrow> length l + length r = length xs"
  by (induction xs arbitrary: l r) (auto split: if_splits prod.splits)

lemma sock_readline_shrinks:
  "sock_readline s = (Inr l, s') \<Longrightarrow> l \<noteq> [] \<Longrightarrow> length (inp s') < length (inp s)"
proof -
  assume a: "sock_readline s = (Inr l, s')" and n: "l \<noteq> []"
  obtain l0 r0 where sl: "split_line (inp s) = (l0, r0)"
    by (cases "split_line (inp s)")
  from a sl have "l = l0" and "inp s' = r0"
    by (auto simp: sock_readline_def split: if_splits)
  moreover from sl have "length l0 + length r0 = length (inp s)"
    by (rule split_line_length)
  ultimately show ?thesis using n by (cases l0) auto
qed

termination cmd_loop
  by (relation "measure (\<lambda>(c, s, a). length (inp s))")
     (auto dest: sock_readline_shrinks [OF sym])

declare cmd_loop.simps [simp del]

definition cmd :: "session \<Rightarrow> string \<Rightarrow> reply res" where
  "cmd self cmd_str =
     (let s = (if cmd_str \<noteq> ''Initial greeting''
               then sock_write (encode (cmd_str @ crlf)) (sock self) else sock self)
      in case cmd_loop cmd_str s [] of (r, s') \<Rightarrow> (r, self\<lparr>sock := s'\<rparr>))"

subsection \<open>\<open>login\<close>\<close>

text \<open>The constants of the module.\<close>

definition LOCAL_DOMAIN :: string where "LOCAL_DOMAIN = ''127.0.0.1''"
definition CMD_EHLO :: string where "CMD_EHLO = ''EHLO''"
definition CMD_STARTTLS :: string where "CMD_STARTTLS = ''STARTTLS''"
definition CMD_AUTH :: string where "CMD_AUTH = ''AUTH''"
definition AUTH_PLAIN :: string where "AUTH_PLAIN = ''PLAIN''"
definition AUTH_LOGIN :: string where "AUTH_LOGIN = ''LOGIN''"

text \<open>
  The loop over the features of the EHLO reply: \<open>auths\<close> starts as \<open>None\<close> and every
  feature whose first four characters are \<open>AUTH\<close> (in any case) overwrites it.
\<close>

definition parse_auths :: "string list \<Rightarrow> string list option" where
  "parse_auths resp =
     foldl (\<lambda>auths feature.
              if upper (cp_take 4 feature) = CMD_AUTH
              then Some (split (upper (strip ''='' (cp_drop 4 feature))))
              else auths) None resp"

text \<open>
  \<open>ubinascii.b2a_base64\<close> is not part of the repository: \<open>b64\<close> is a parameter of
  every operation that encodes credentials. Its result is text in the base64 alphabet and
  a line feed, all of it ASCII, of which \<open>decode()\<close> is the string with the same bytes:
  the \<open>decode()\<close> that the source applies to it is not written in the model. The
  credentials of AUTH PLAIN are \<open>"\0{username}\0{password}"\<close>.
\<close>

definition plain_credentials :: "string \<Rightarrow> string \<Rightarrow> string" where
  "plain_credentials user password = CHR 0x00 # user @ CHR 0x00 # password"

definition not_supported_msg :: "string list \<Rightarrow> string" where
  "not_supported_msg auths = ''Auth methods not supported: '' @ join '', '' auths"

definition login :: "(string \<Rightarrow> string) \<Rightarrow> session \<Rightarrow> string \<Rightarrow> string \<Rightarrow> reply res" where
  "login b64 self0 user password =
     (let self1 = self0\<lparr>username := Some user\<rparr> in
      case cmd self1 (CMD_EHLO @ '' '' @ LOCAL_DOMAIN) of
        (Inl e, self2) \<Rightarrow> (Inl e, self2)
      | (Inr (code, resp), self2) \<Rightarrow>
          if code \<noteq> 250 then (Inl (EhloFailed code resp), self2)
          else (case parse_auths resp of
                  None \<Rightarrow> (Inl NoAuthMethods, self2)
                | Some auths \<Rightarrow>
                    if auths = [] then (Inl NoAuthMethods, self2)
                    else (case (if AUTH_PLAIN \<in> set auths then
                                  (let cren = strip_ws (b64 (plain_credentials user password))
                                   in cmd self2 (CMD_AUTH @ '' '' @ AUTH_PLAIN @ '' '' @ cren))
                                else if AUTH_LOGIN \<in> set auths then
                                  (case cmd self2 (CMD_AUTH @ '' '' @ AUTH_LOGIN) of
                                     (Inl e, self3) \<Rightarrow> (Inl e, self3)
                                   | (Inr (code, resp), self3) \<Rightarrow>
                                       if code \<noteq> 334
                                       then (Inl (UsernamePromptFailed code resp), self3)
                                       else (case cmd self3 (strip_ws (b64 user)) of
                                               (Inl e, self4) \<Rightarrow> (Inl e, self4)
                                             | (Inr (code, resp), self4) \<Rightarrow>
                                                 if code \<noteq> 334
                                                 then (Inl (UsernameFailed code resp), self4)
                                                 else cmd self4 (strip_ws (b64 password))))
                                else (Inl (Exception (not_supported_msg auths)), self2)) of
                            (Inl e, self5) \<Rightarrow> (Inl e, self5)
                          | (Inr (code, resp), self5) \<Rightarrow>
                              if code \<noteq> 235 \<and> code \<noteq> 503
                              then (Inl (AuthFailed code resp), self5)
                              else (Inr (code, resp), self5))))"

subsection \<open>\<open>__init__\<close>\<close>

text \<open>A value is true in a condition unless it is \<open>None\<close> or the empty string.\<close>

definition truthy :: "string option \<Rightarrow> bool" where
  "truthy v = (case v of None \<Rightarrow> False | Some s \<Rightarrow> s \<noteq> [])"

text \<open>
  Lines 60 to 78 of umailesp.py, the body of \<open>if not use_ssl and CMD_STARTTLS in resp\<close>.
  Both \<open>hasattr\<close> tests hold of a socket; every exception of \<open>wrap_socket\<close> is
  caught and raised again as \<open>STARTTLS SSL wrap failed\<close>.
\<close>

definition starttls :: "session \<Rightarrow> unit res" where
  "starttls self0 =
     (case cmd self0 CMD_STARTTLS of
        (Inl e, self1) \<Rightarrow> (Inl e, self1)
      | (Inr (code, resp), self1) \<Rightarrow>
          if code \<noteq> 220 then (Inl (StartTLSFailed code resp), self1)
          else (case wrap_socket (sock self1) of
                  Inl e \<Rightarrow> (Inl StartTLSWrapFailed, self1)
                | Inr wrapped_sock \<Rightarrow>
                    (let self2 = self1\<lparr>sock := wrapped_sock\<rparr> in
                     case cmd self2 (CMD_EHLO @ '' '' @ LOCAL_DOMAIN) of
                       (Inl e, self3) \<Rightarrow> (Inl e, self3)
                     | (Inr (code, resp), self3) \<Rightarrow>
                         if code \<noteq> 250
                         then (Inl (EhloAfterStartTLSFailed code resp), self3)
                         else (Inr (), self3))))"

text \<open>
  The constructor. \<open>connects\<close> tells whether \<open>connect\<close> succeeds and \<open>s0\<close> is the
  stream it opens; name resolution is not modelled. The result holds the session as the
  constructor left it, also when it raises.
\<close>

definition init ::
  "(string \<Rightarrow> string) \<Rightarrow> bool \<Rightarrow> sock \<Rightarrow> bool \<Rightarrow> string option \<Rightarrow> string option \<Rightarrow> unit res" where
  "init b64 connects s0 use_ssl user password =
     (let self0 = \<lparr>username = user, sock = s0\<rparr> in
      if \<not> connects then (Inl ConnectFailed, self0)
      else (case (if use_ssl
                  then (case wrap_socket s0 of Inl e \<Rightarrow> Inl SSLWrapFailed | Inr s \<Rightarrow> Inr s)
                  else Inr s0) of
              Inl e \<Rightarrow> (Inl e, self0)
            | Inr s1 \<Rightarrow>
               (case sock_readline s1 of
                  (Inl e, s2) \<Rightarrow> (Inl e, self0\<lparr>sock := s2\<rparr>)
                | (Inr greeting, s2) \<Rightarrow>
                   (let self1 = self0\<lparr>sock := s2\<rparr> in
                    if greeting = [] then (Inl NoGreeting, self1)
                    else (let greeting_str = rstrip crlf (decode_replace greeting) in
                          case py_int (cp_take 3 greeting_str) of
                            Inl e \<Rightarrow> (Inl e, self1)
                          | Inr code \<Rightarrow>
                             if code \<noteq> 220 then (Inl (SMTPConnectFailed code), self1)
                             else (case cmd self1 (CMD_EHLO @ '' '' @ LOCAL_DOMAIN) of
                                     (Inl e, self2) \<Rightarrow> (Inl e, self2)
                                   | (Inr (code, resp), self2) \<Rightarrow>
                                      if code \<noteq> 250 then (Inl (EhloFailed code resp), self2)
                                      else (case (if \<not> use_ssl \<and> CMD_STARTTLS \<in> set resp
                                                  then starttls self2 else (Inr (), self2)) of
                                              (Inl e, self3) \<Rightarrow> (Inl e, self3)
                                            | (Inr u, self3) \<Rightarrow>
                                               if truthy user \<and> truthy password
                                               then (case login b64 self3 (the user) (the password) of
                                                       (Inl e, self4) \<Rightarrow> (Inl e, self4)
                                                     | (Inr r, self4) \<Rightarrow> (Inr (), self4))
                                               else (Inr (), self3))))))))"

subsection \<open>\<open>to\<close>\<close>

text \<open>
  Both files hold the same text of \<open>to\<close> and of \<open>quit\<close>; they differ in the
  \<open>cmd\<close> they call. The model has one definition of each, with \<open>self.cmd\<close> as the
  parameter \<open>cmdf\<close>.
\<close>

type_synonym cmd_fun = "session \<Rightarrow> string \<Rightarrow> reply res"

text \<open>The argument \<open>addrs\<close> is one string or a list of strings.\<close>

datatype addrs = Str string | Lst "string list"

text \<open>An optional string in an f-string: \<open>None\<close> prints as \<open>None\<close>.\<close>

definition fmt :: "string option \<Rightarrow> string" where
  "fmt v = (case v of None \<Rightarrow> ''None'' | Some s \<Rightarrow> s)"

text \<open>The loop \<open>for addr in addrs\<close>, with the variables it assigns:
  \<open>count\<close>, \<open>code\<close> and \<open>resp\<close>.\<close>

fun rcpt_loop ::
  "cmd_fun \<Rightarrow> session \<Rightarrow> string list \<Rightarrow> nat \<Rightarrow> int \<Rightarrow> string list
     \<Rightarrow> (nat \<times> int \<times> string list) res" where
  "rcpt_loop cmdf self [] count code resp = (Inr (count, code, resp), self)"
| "rcpt_loop cmdf self (addr # rest) count code resp =
     (case cmdf self (''RCPT TO: <'' @ addr @ ''>'') of
        (Inl e, self') \<Rightarrow> (Inl e, self')
      | (Inr (code', resp'), self') \<Rightarrow>
          rcpt_loop cmdf self' rest
            (if code' \<noteq> 250 \<and> code' \<noteq> 251 then count + 1 else count) code' resp')"

text \<open>
  The body of the \<open>try\<close> block, one attempt. The source rebinds \<open>addrs\<close> to the
  one-element list on the first attempt that gets that far; doing so on every attempt
  gives the same list.
\<close>

definition to_attempt :: "cmd_fun \<Rightarrow> session \<Rightarrow> string \<Rightarrow> addrs \<Rightarrow> reply res" where
  "to_attempt cmdf self0 mail_from addrs =
     (case cmdf self0 (''MAIL FROM: <'' @ mail_from @ ''>'') of
        (Inl e, self1) \<Rightarrow> (Inl e, self1)
      | (Inr (code, resp), self1) \<Rightarrow>
          if code \<noteq> 250 then (Inl (SenderRefused code resp), self1)
          else (let addrs' = (case addrs of Str a \<Rightarrow> [a] | Lst as \<Rightarrow> as) in
                case rcpt_loop cmdf self1 addrs' 0 code resp of
                  (Inl e, self2) \<Rightarrow> (Inl e, self2)
                | (Inr (count, code, resp), self2) \<Rightarrow>
                    if count = length addrs' then (Inl (AllRecipientsRefused code resp), self2)
                    else (case cmdf self2 ''DATA'' of
                            (Inl e, self3) \<Rightarrow> (Inl e, self3)
                          | (Inr (code, resp), self3) \<Rightarrow>
                              if code \<noteq> 354 then (Inl (DataRefused code resp), self3)
                              else (Inr (code, resp), self3))))"

text \<open>\<open>range(n)\<close>: empty when \<open>n \<le> 0\<close>.\<close>

definition py_range :: "int \<Rightarrow> int list" where
  "py_range n = map int [0..<nat n]"

text \<open>
  The loop \<open>for attempt in range(retries)\<close> over the attempts still to come. When the
  loop ends without a \<open>return\<close> the function returns \<open>None\<close>.
\<close>

fun to_loop ::
  "cmd_fun \<Rightarrow> session \<Rightarrow> string \<Rightarrow> addrs \<Rightarrow> int \<Rightarrow> int list \<Rightarrow> reply option res" where
  "to_loop cmdf self mail_from addrs retries [] = (Inr None, self)"
| "to_loop cmdf self mail_from addrs retries (attempt # rest) =
     (case to_attempt cmdf self mail_from addrs of
        (Inr r, self') \<Rightarrow> (Inr (Some r), self')
      | (Inl e, self') \<Rightarrow>
          if attempt < retries - 1
          then to_loop cmdf self' mail_from addrs retries rest
          else (Inl e, self'))"

definition to_gen ::
  "cmd_fun \<Rightarrow> session \<Rightarrow> addrs \<Rightarrow> string option \<Rightarrow> int \<Rightarrow> reply option res" where
  "to_gen cmdf self addrs mail_from retries =
     (let mail_from' = (case mail_from of None \<Rightarrow> fmt (username self) | Some m \<Rightarrow> m)
      in to_loop cmdf self mail_from' addrs retries (py_range retries))"

definition to :: "session \<Rightarrow> addrs \<Rightarrow> string option \<Rightarrow> int \<Rightarrow> reply option res" where
  "to = to_gen cmd"

subsection \<open>\<open>write\<close>, \<open>send\<close>, \<open>quit\<close>\<close>

text \<open>\<open>write\<close> (a keyword of Isabelle, hence the suffix).\<close>

definition write_smtp :: "session \<Rightarrow> string \<Rightarrow> session" where
  "write_smtp self content = self\<lparr>sock := sock_write (encode content) (sock self)\<rparr>"

definition mime_headers :: string where
  "mime_headers =
     ''MIME-Version: 1.0'' @ crlf @ ''Content-Type: text/plain; charset=UTF-8'' @ crlf"

definition data_end :: string where
  "data_end = crlf @ ''.'' @ crlf"

definition send :: "session \<Rightarrow> string \<Rightarrow> bool \<Rightarrow> (int \<times> string) res" where
  "send self0 content mime =
     (let self1 = (if mime then write_smtp (write_smtp self0 mime_headers) crlf else self0);
          self2 = (if content \<noteq> [] then write_smtp self1 content else self1);
          s3 = sock_write data_end (sock self2)
      in case sock_readline s3 of
           (Inl e, s4) \<Rightarrow> (Inl e, self2\<lparr>sock := s4\<rparr>)
         | (Inr l, s4) \<Rightarrow>
             (let self4 = self2\<lparr>sock := s4\<rparr> in
              case decode (strip_ws l) of
                Inl e \<Rightarrow> (Inl e, self4)
              | Inr line \<Rightarrow>
                  if line = [] then (Inl NoSendResponse, self4)
                  else (case py_int (cp_take 3 line) of
                          Inl e \<Rightarrow> (Inl e, self4)
                        | Inr code \<Rightarrow> (Inr (code, cp_drop 4 line), self4))))"

text \<open>
  \<open>quit\<close>: the handler \<open>except Exception\<close> catches whatever \<open>cmd\<close> raises and only
  prints it; \<open>close\<close> follows the \<open>try\<close> statement.
\<close>

definition quit_gen :: "cmd_fun \<Rightarrow> session \<Rightarrow> unit res" where
  "quit_gen cmdf self0 =
     (case (case cmdf self0 ''QUIT'' of
              (Inl e, self1) \<Rightarrow> (Inr (), self1)
            | (Inr r, self1) \<Rightarrow> (Inr (), self1)) of
        (Inl e, self2) \<Rightarrow> (Inl e, self2)
      | (Inr u, self2) \<Rightarrow> (Inr (), self2\<lparr>sock := sock_close (sock self2)\<rparr>))"

definition quit :: "session \<Rightarrow> unit res" where
  "quit = quit_gen cmd"

section \<open>The session of umailesp32.py\<close>

subsection \<open>\<open>cmd\<close>\<close>

text \<open>The loop \<open>while sock.read(1) == b'-'\<close>, with the variable \<open>resp\<close>.\<close>

function cmd32_loop :: "sock \<Rightarrow> string \<Rightarrow> (exn + string) \<times> sock" where
  "cmd32_loop s resp =
     (case sock_read 1 s of
        (Inl e, s') \<Rightarrow> (Inl e, s')
      | (Inr b, s') \<Rightarrow>
          if b = ''-''
          then (case sock_readline s' of
                  (Inl e, s'') \<Rightarrow> (Inl e, s'')
                | (Inr l, s'') \<Rightarrow>
                    (case decode (strip_ws l) of
                       Inl e \<Rightarrow> (Inl e, s'')
                     | Inr t \<Rightarrow> cmd32_loop s'' (resp @ '' '' @ t)))
          else (Inr resp, s'))"
  by pat_completeness auto

lemma sock_read_shrinks:
  "sock_read 1 s = (Inr b, s') \<Longrightarrow> b \<noteq> [] \<Longrightarrow> length (inp s') < length (inp s)"
  by (cases "inp s") (auto simp: sock_read_def split: if_splits)

lemma sock_readline_le:
  "sock_readline s = (r, s') \<Longrightarrow> length (inp s') \<le> length (inp s)"
proof -
  assume a: "sock_readline s = (r, s')"
  obtain l0 r0 where sl: "split_line (inp s) = (l0, r0)"
    by (cases "split_line (inp s)")
  from sl have "length l0 + length r0 = length (inp s)"
    by (rule split_line_length)
  with a sl show ?thesis
    by (auto simp: sock_readline_def split: if_splits)
qed

termination cmd32_loop
proof (relation "measure (\<lambda>(s, r). length (inp s))")
  show "wf (measure (\<lambda>(s, r). length (inp s)))" by simp
next
  fix s :: sock and resp :: string and x y x2 x2a xa ya b t
  assume r1: "(x, y) = sock_read 1 s" and x: "x = Inr x2" and m: "x2 = ''-''"
    and r2: "(xa, ya) = sock_readline y" and "xa = Inr b"
  from r1 x m have "length (inp y) < length (inp s)"
    by (intro sock_read_shrinks [of s x2 y]) auto
  moreover from r2 have "length (inp ya) \<le> length (inp y)"
    by (intro sock_readline_le [of y xa ya]) auto
  ultimately show "((ya, resp @ '' '' @ t), (s, resp))
                     \<in> measure (\<lambda>(s, r). length (inp s))"
    by simp
qed

declare cmd32_loop.simps [simp del]

definition cmd32 :: "session \<Rightarrow> string \<Rightarrow> reply res" where
  "cmd32 self cmd_str =
     (let s0 = sock_write (cmd_str @ crlf) (sock self) in
      case sock_read 3 s0 of
        (Inl e, s1) \<Rightarrow> (Inl e, self\<lparr>sock := s1\<rparr>)
      | (Inr code, s1) \<Rightarrow>
          if code = [] then (Inl NoSMTPResponse, self\<lparr>sock := s1\<rparr>)
          else (case py_int code of
                  Inl e \<Rightarrow> (Inl e, self\<lparr>sock := s1\<rparr>)
                | Inr code' \<Rightarrow>
                   (case sock_readline s1 of
                      (Inl e, s2) \<Rightarrow> (Inl e, self\<lparr>sock := s2\<rparr>)
                    | (Inr l, s2) \<Rightarrow>
                       (case decode (strip_ws l) of
                          Inl e \<Rightarrow> (Inl e, self\<lparr>sock := s2\<rparr>)
                        | Inr t \<Rightarrow>
                           (case cmd32_loop s2 t of
                              (Inl e, s3) \<Rightarrow> (Inl e, self\<lparr>sock := s3\<rparr>)
                            | (Inr resp, s3) \<Rightarrow> (Inr (code', [resp]), self\<lparr>sock := s3\<rparr>))))))"

subsection \<open>\<open>login\<close>\<close>

text \<open>\<open>b[:-1]\<close> is \<^const>\<open>butlast\<close>; as in umailesp.py, the \<open>decode()\<close> of the
  result of \<open>b64\<close> is not written.\<close>

definition login32 :: "(string \<Rightarrow> string) \<Rightarrow> session \<Rightarrow> string \<Rightarrow> string \<Rightarrow> reply res" where
  "login32 b64 self0 user password =
     (let self1 = self0\<lparr>username := Some user\<rparr> in
      case cmd32 self1 (CMD_EHLO @ '' '' @ LOCAL_DOMAIN) of
        (Inl e, self2) \<Rightarrow> (Inl e, self2)
      | (Inr (code, resp), self2) \<Rightarrow>
          if code \<noteq> 250 then (Inl (EhloFailed code resp), self2)
          else (case parse_auths resp of
                  None \<Rightarrow> (Inl NoAuthMethods, self2)
                | Some auths \<Rightarrow>
                    if auths = [] then (Inl NoAuthMethods, self2)
                    else (case (if AUTH_PLAIN \<in> set auths then
                                  (let cren = butlast (b64 (plain_credentials user password))
                                   in cmd32 self2 (CMD_AUTH @ '' '' @ AUTH_PLAIN @ '' '' @ cren))
                                else if AUTH_LOGIN \<in> set auths then
                                  (case cmd32 self2 (CMD_AUTH @ '' '' @ AUTH_LOGIN @ '' ''
                                                      @ butlast (b64 user)) of
                                     (Inl e, self3) \<Rightarrow> (Inl e, self3)
                                   | (Inr (code, resp), self3) \<Rightarrow>
                                       if code \<noteq> 334
                                       then (Inl (UsernameFailed code resp), self3)
                                       else cmd32 self3 (butlast (b64 password)))
                                else (Inl (Exception (not_supported_msg auths)), self2)) of
                            (Inl e, self5) \<Rightarrow> (Inl e, self5)
                          | (Inr (code, resp), self5) \<Rightarrow>
                              if code \<noteq> 235 \<and> code \<noteq> 503
                              then (Inl (AuthFailed code resp), self5)
                              else (Inr (code, resp), self5))))"

subsection \<open>\<open>__init__\<close>\<close>

text \<open>
  The parameter that asks for transport security is named \<open>ssl\<close>, and the first
  statement of the body is \<open>import ssl\<close>: from there on the name \<open>ssl\<close> is the module,
  which is true in a condition, whatever the caller passed. The model binds \<open>ssl\<close> to
  \<open>True\<close> at that place; \<open>ssl_arg\<close> is what the caller passed.
\<close>

definition init32 ::
  "(string \<Rightarrow> string) \<Rightarrow> bool \<Rightarrow> sock \<Rightarrow> bool \<Rightarrow> string option \<Rightarrow> string option \<Rightarrow> unit res" where
  "init32 b64 connects s0 ssl_arg user password =
     (let ssl = True;
          self0 = \<lparr>username = user, sock = s0\<rparr> in
      if \<not> connects then (Inl ConnectFailed, self0)
      else (case (if ssl then wrap_socket s0 else Inr s0) of
              Inl e \<Rightarrow> (Inl e, self0)
            | Inr s1 \<Rightarrow>
               (case sock_read 3 s1 of
                  (Inl e, s2) \<Rightarrow> (Inl e, self0\<lparr>sock := s2\<rparr>)
                | (Inr b, s2) \<Rightarrow>
                   (case py_int b of
                      Inl e \<Rightarrow> (Inl e, self0\<lparr>sock := s2\<rparr>)
                    | Inr code \<Rightarrow>
                       (case sock_readline s2 of
                          (Inl e, s3) \<Rightarrow> (Inl e, self0\<lparr>sock := s3\<rparr>)
                        | (Inr l, s3) \<Rightarrow>
                           (let self1 = self0\<lparr>sock := s3\<rparr> in
                            if code \<noteq> 220 then (Inl (SMTPConnectFailed code), self1)
                            else (case cmd32 self1 (CMD_EHLO @ '' '' @ LOCAL_DOMAIN) of
                                    (Inl e, self2) \<Rightarrow> (Inl e, self2)
                                  | (Inr (code, resp), self2) \<Rightarrow>
                                     if code \<noteq> 250 then (Inl (EhloFailed code resp), self2)
                                     else (case (if \<not> ssl \<and> CMD_STARTTLS \<in> set resp
                                                 then (case cmd32 self2 CMD_STARTTLS of
                                                         (Inl e, self3) \<Rightarrow> (Inl e, self3)
                                                       | (Inr (code, resp), self3) \<Rightarrow>
                                                           if code \<noteq> 220
                                                           then (Inl (StartTLSFailed code resp), self3)
                                                           else (case wrap_socket (sock self3) of
                                                                   Inl e \<Rightarrow> (Inl e, self3)
                                                                 | Inr w \<Rightarrow> (Inr (), self3\<lparr>sock := w\<rparr>)))
                                                 else (Inr (), self2)) of
                                             (Inl e, self4) \<Rightarrow> (Inl e, self4)
                                           | (Inr u, self4) \<Rightarrow>
                                              if truthy user \<and> truthy password
                                              then (case login32 b64 self4 (the user) (the password) of
                                                      (Inl e, self5) \<Rightarrow> (Inl e, self5)
                                                    | (Inr r, self5) \<Rightarrow> (Inr (), self5))
                                              else (Inr (), self4)))))))))"

subsection \<open>\<open>to\<close>, \<open>write\<close>, \<open>send\<close>, \<open>quit\<close>\<close>

definition to32 :: "session \<Rightarrow> addrs \<Rightarrow> string option \<Rightarrow> int \<Rightarrow> reply option res" where
  "to32 = to_gen cmd32"

definition write32 :: "session \<Rightarrow> string \<Rightarrow> session" where
  "write32 self content = self\<lparr>sock := sock_write content (sock self)\<rparr>"

definition send32 :: "session \<Rightarrow> string \<Rightarrow> bool \<Rightarrow> (int \<times> string) res" where
  "send32 self0 content mime =
     (let self1 = (if mime then write32 self0 mime_headers else self0);
          self2 = (if content \<noteq> [] then write32 self1 content else self1);
          s3 = sock_write data_end (sock self2)
      in case sock_readline s3 of
           (Inl e, s4) \<Rightarrow> (Inl e, self2\<lparr>sock := s4\<rparr>)
         | (Inr line, s4) \<Rightarrow>
             (let self4 = self2\<lparr>sock := s4\<rparr> in
              if line = [] then (Inl NoSendResponse, self4)
              else (case py_int (take 3 line) of
                      Inl e \<Rightarrow> (Inl e, self4)
                    | Inr code \<Rightarrow>
                        (case decode (strip_ws (drop 4 line)) of
                           Inl e \<Rightarrow> (Inl e, self4)
                         | Inr resp \<Rightarrow> (Inr (code, resp), self4)))))"

definition quit32 :: "session \<Rightarrow> unit res" where
  "quit32 = quit_gen cmd32"

section \<open>Notions used to state the properties\<close>

text \<open>A freshly connected plain socket on which the server sends \<open>i\<close> and then closes
  the connection, and a session on it.\<close>

definition sock_of :: "string \<Rightarrow> sock" where
  "sock_of i = \<lparr>inp = i, stalls = False, out = [], tls = False, wrap_fails = False, closes = 0\<rparr>"

definition session_of :: "string \<Rightarrow> session" where
  "session_of i = \<lparr>username = None, sock = sock_of i\<rparr>"

text \<open>
  A reply line on the wire: the code, one separator character, the text, CRLF. A reply is
  a list of continuation lines (separator \<open>-\<close>) and a final line (separator space); each
  line is a pair of its code and its text.
\<close>

definition reply_line :: "string \<Rightarrow> char \<Rightarrow> string \<Rightarrow> string" where
  "reply_line code sep text = code @ sep # text @ crlf"

definition wire_reply :: "(string \<times> string) list \<Rightarrow> string \<times> string \<Rightarrow> string" where
  "wire_reply conts final =
     concat (map (\<lambda>(c, t). reply_line c (CHR ''-'') t) conts)
       @ reply_line (fst final) (CHR '' '') (snd final)"

text \<open>A code is three digits; a text has no line feed in it.\<close>

definition code_ok :: "string \<Rightarrow> bool" where
  "code_ok code = (length code = 3 \<and> list_all is_digit code)"

definition text_ok :: "string \<Rightarrow> bool" where
  "text_ok text = (CHR 0x0A \<notin> set text)"

definition line_ok :: "string \<times> string \<Rightarrow> bool" where
  "line_ok l = (code_ok (fst l) \<and> text_ok (snd l))"

text \<open>What \<open>cmd\<close> of umailesp.py keeps of the text of a line: the bytes are decoded,
  trailing CR and LF and leading dashes and spaces are gone.\<close>

definition kept :: "string \<Rightarrow> string" where
  "kept text = lstrip ''- '' (rstrip crlf (decode_replace text))"


text \<open>The session after \<open>k\<close> attempts of \<open>to\<close>, one after the other.\<close>

fun after_attempts :: "cmd_fun \<Rightarrow> string \<Rightarrow> addrs \<Rightarrow> nat \<Rightarrow> session \<Rightarrow> session" where
  "after_attempts cmdf mail_from addrs 0 self = self"
| "after_attempts cmdf mail_from addrs (Suc k) self =
     after_attempts cmdf mail_from addrs k (snd (to_attempt cmdf self mail_from addrs))"

text \<open>The chunks written between two states of the session, and how many of them are
  the command \<open>MAIL FROM\<close> for a sender.\<close>

definition written :: "session \<Rightarrow> session \<Rightarrow> string list" where
  "written before after = drop (length (out (sock before))) (out (sock after))"

definition mail_from_count :: "string \<Rightarrow> string list \<Rightarrow> nat" where
  "mail_from_count mail_from ws =
     length (filter (\<lambda>w. w = ''MAIL FROM: <'' @ mail_from @ ''>'' @ crlf) ws)"

text \<open>A reply as the server sends it: its continuation lines and its final line. Its
  code is the value of the digits of its final line.\<close>

type_synonym wreply = "(string \<times> string) list \<times> (string \<times> string)"

definition wire :: "wreply \<Rightarrow> string" where
  "wire r = wire_reply (fst r) (snd r)"

definition reply_ok :: "wreply \<Rightarrow> bool" where
  "reply_ok r = (list_all line_ok (fst r) \<and> line_ok (snd r))"

definition reply_code :: "wreply \<Rightarrow> int" where
  "reply_code r = digits_val (fst (snd r))"

text \<open>The lines that \<open>cmd\<close> of umailesp.py returns for a reply.\<close>

definition reply_lines :: "wreply \<Rightarrow> string list" where
  "reply_lines r = map (kept \<circ> snd) (fst r) @ [kept (snd (snd r))]"

text \<open>A recipient is accepted when the code of the reply to its \<open>RCPT TO\<close> is 250 or
  251, and refused otherwise.\<close>

definition accepted :: "wreply \<Rightarrow> bool" where
  "accepted r = (reply_code r = 250 \<or> reply_code r = 251)"

section \<open>Decoded text and its slices\<close>

lemma ascii_not_cont: "is_ascii c \<Longrightarrow> \<not> is_cont c"
  by (simp add: is_ascii_def is_cont_def)

lemma utf8_ranges_lead:
  "utf8_ranges c = Some rs \<Longrightarrow> \<not> is_cont c \<and> (\<forall>r \<in> set rs. 128 \<le> fst r)"
  unfolding utf8_ranges_def is_cont_def Let_def by (auto split: if_splits)

lemma matched_length: "matched rs cs \<le> length cs"
  by (induction rs cs rule: matched.induct) simp_all

lemma matched_append:
  "\<forall>r \<in> set rs. 128 \<le> fst r \<Longrightarrow> is_ascii x \<Longrightarrow> matched rs (cs @ x # b) = matched rs cs"
  by (induction rs cs rule: matched.induct) (auto simp: is_ascii_def)

text \<open>An ASCII byte ends whatever sequence was begun before it, so the text before it and
  the text from it on are decoded each on its own.\<close>

lemma decode_replace_append:
  "is_ascii x \<Longrightarrow> decode_replace (a @ x # b) = decode_replace a @ x # decode_replace b"
proof (induction a rule: decode_replace.induct)
  case 1
  then show ?case by simp
next
  case (2 c cs)
  show ?case
  proof (cases "is_ascii c")
    case True
    with 2 show ?thesis by simp
  next
    case False
    show ?thesis
    proof (cases "utf8_ranges c")
      case None
      with False 2 show ?thesis by simp
    next
      case (Some rs)
      from Some have "\<forall>r \<in> set rs. 128 \<le> fst r" by (simp add: utf8_ranges_lead)
      then have m: "matched rs (cs @ x # b) = matched rs cs"
        using "2.prems" by (rule matched_append)
      have ih: "decode_replace (drop (matched rs cs) cs @ x # b)
                  = decode_replace (drop (matched rs cs) cs) @ x # decode_replace b"
        using "2.IH"(3) [OF False Some "2.prems"] .
      from False Some m ih matched_length [of rs cs] show ?thesis by simp
    qed
  qed
qed

lemma decode_replace_ascii:
  "list_all is_ascii b \<Longrightarrow> decode_replace b = b"
  by (induction b) simp_all

lemma decode_replace_ascii_prefix:
  "list_all is_ascii p \<Longrightarrow> decode_replace (p @ r) = p @ decode_replace r"
  by (induction p) simp_all

text \<open>Well-formed UTF-8 is decoded to the string it represents.\<close>

lemma decode_replace_valid:
  "utf8_valid b \<Longrightarrow> decode_replace b = b"
proof (induction b rule: utf8_valid.induct)
  case 1
  show ?case by simp
next
  case (2 c cs)
  show ?case
  proof (cases "is_ascii c")
    case True
    with 2 show ?thesis by simp
  next
    case False
    with "2.prems" obtain rs where r: "utf8_ranges c = Some rs"
      and m: "matched rs cs = length rs" and v: "utf8_valid (drop (matched rs cs) cs)"
      by (auto split: option.splits)
    from "2.IH"(2) [OF False r v] False r m show ?thesis by simp
  qed
qed

text \<open>A decoded text does not begin with a continuation byte.\<close>

lemma decode_replace_head:
  "takeWhile is_cont (decode_replace b) = []"
proof (cases b)
  case Nil
  then show ?thesis by simp
next
  case (Cons c cs)
  have r: "\<not> is_cont (CHR 0xEF)" by (simp add: is_cont_def)
  show ?thesis
  proof (cases "is_ascii c")
    case True
    with Cons show ?thesis by (simp add: ascii_not_cont)
  next
    case False
    then show ?thesis using Cons r
      by (cases "utf8_ranges c") (auto simp: replacement_def dest: utf8_ranges_lead)
  qed
qed

lemma rstrip_prefix: "\<exists>z. s = rstrip cs s @ z"
  unfolding rstrip_def by (metis rev_append rev_rev_ident takeWhile_dropWhile_id)

lemma takeWhile_prefix_nil: "takeWhile P (a @ z) = [] \<Longrightarrow> takeWhile P a = []"
  by (cases a) (auto split: if_splits)

lemma rstrip_decode_head:
  "takeWhile is_cont (rstrip cs (decode_replace b)) = []"
proof -
  obtain z where "decode_replace b = rstrip cs (decode_replace b) @ z"
    using rstrip_prefix by blast
  with decode_replace_head [of b] show ?thesis
    by (metis takeWhile_prefix_nil)
qed

text \<open>Slices of a string that begins with characters of one byte each.\<close>

lemma cp_len_append: "cp_len (a @ b) = cp_len a + cp_len b"
  by (simp add: cp_len_def)

lemma cp_len_single: "list_all (\<lambda>c. \<not> is_cont c) p \<Longrightarrow> cp_len p = length p"
  by (induction p) (simp_all add: cp_len_def)

lemma cp_len_le: "cp_len s \<le> length s"
  by (simp add: cp_len_def)

lemma cp_prefix:
  "list_all (\<lambda>c. \<not> is_cont c) p \<Longrightarrow> \<not> is_cont x \<Longrightarrow>
     cp_take (length p) (p @ x # r) = p \<and> cp_drop (length p) (p @ x # r) = x # r"
proof (induction p)
  case Nil
  show ?case by simp
next
  case (Cons a p)
  then have h: "dropWhile is_cont (p @ x # r) = p @ x # r" "takeWhile is_cont (p @ x # r) = []"
    by (cases p; simp)+
  from Cons h show ?case by simp
qed

lemma cp_take_all: "list_all (\<lambda>c. \<not> is_cont c) p \<Longrightarrow> cp_take (length p) p = p"
proof (induction p)
  case Nil
  show ?case by simp
next
  case (Cons a p)
  then have h: "dropWhile is_cont p = p" "takeWhile is_cont p = []"
    by (cases p; simp)+
  from Cons h show ?case by simp
qed

text \<open>A slice of \<open>n\<close> characters, all of them ASCII, has \<open>n\<close> bytes.\<close>

lemma cp_take_ascii:
  "list_all is_ascii (cp_take n s) \<Longrightarrow> \<not> cp_len s < n \<Longrightarrow> length (cp_take n s) = n"
proof (induction n arbitrary: s)
  case 0
  show ?case by simp
next
  case (Suc n)
  from Suc.prems(2) obtain c cs where s: "s = c # cs"
    by (cases s) (simp_all add: cp_len_def)
  from Suc.prems(1) s have a: "list_all is_ascii (takeWhile is_cont cs)"
    and b: "list_all is_ascii (cp_take n (dropWhile is_cont cs))"
    by simp_all
  have t: "takeWhile is_cont cs = []"
  proof (cases "takeWhile is_cont cs")
    case Nil
    then show ?thesis .
  next
    case (Cons y ys)
    then have "y \<in> set (takeWhile is_cont cs)" by simp
    then have "is_cont y" by (rule set_takeWhileD [THEN conjunct2])
    moreover from a Cons have "is_ascii y" by simp
    ultimately show ?thesis by (simp add: ascii_not_cont)
  qed
  then have d: "dropWhile is_cont cs = cs"
    by (metis append_Nil takeWhile_dropWhile_id)
  from Suc.prems(2) s have "\<not> cp_len cs < n"
    by (simp add: cp_len_def split: if_splits)
  with b d have "length (cp_take n cs) = n"
    using Suc.IH [of cs] by simp
  with s t d show ?case by simp
qed

text \<open>What \<open>int\<close> accepts is ASCII.\<close>

lemma is_digit_ascii: "is_digit c \<Longrightarrow> is_ascii c"
  unfolding is_digit_def is_ascii_def by auto

lemma whitespace_ascii: "c \<in> set whitespace \<Longrightarrow> is_ascii c"
  unfolding whitespace_def is_ascii_def by auto

lemma digit_groups_ascii:
  "digit_groups ds \<Longrightarrow> list_all is_ascii ds"
proof (induction ds rule: digit_groups.induct)
  case 1
  then show ?case by simp
next
  case (2 c)
  then show ?case by (simp add: is_digit_ascii)
next
  case (3 c d ds)
  have u: "is_ascii (CHR ''_'')" by (simp add: is_ascii_def)
  show ?case
  proof (cases "d = CHR ''_''")
    case True
    with "3.prems" "3.IH"(1) u show ?thesis by (simp add: is_digit_ascii)
  next
    case False
    with "3.prems" "3.IH"(2) show ?thesis by (simp add: is_digit_ascii)
  qed
qed

lemma strip_ascii:
  assumes "\<forall>c \<in> set cs. is_ascii c" and "list_all is_ascii (strip cs s)"
  shows "list_all is_ascii s"
proof -
  let ?P = "\<lambda>c. c \<in> set cs"
  have d: "list_all is_ascii (dropWhile ?P xs) \<Longrightarrow> list_all is_ascii xs" for xs
  proof -
    assume h: "list_all is_ascii (dropWhile ?P xs)"
    have "list_all is_ascii (takeWhile ?P xs)"
      using assms(1) by (auto simp: list_all_iff dest: set_takeWhileD)
    with h show ?thesis by (metis list_all_append takeWhile_dropWhile_id)
  qed
  from assms(2) have "list_all is_ascii (rstrip cs s)"
    unfolding strip_def lstrip_def by (rule d)
  then have "list_all is_ascii (dropWhile ?P (rev s))"
    by (simp add: rstrip_def list_all_iff)
  then have "list_all is_ascii (rev s)" by (rule d)
  then show ?thesis by (simp add: list_all_iff)
qed

lemma py_int_ascii:
  assumes "py_int p = Inr code"
  shows "list_all is_ascii p"
proof -
  define t where "t = strip_ws p"
  define q :: "int \<times> string" where
    "q = (case t of
            [] \<Rightarrow> (1, [])
          | c # r \<Rightarrow> if c = CHR ''-'' then (- 1, r)
                     else if c = CHR ''+'' then (1, r) else (1, t))"
  obtain sgn ds where sd: "q = (sgn, ds)" by (cases q)
  have s: "is_ascii (CHR ''-'')" "is_ascii (CHR ''+'')" by (simp_all add: is_ascii_def)
  have t: "list_all is_ascii ds \<Longrightarrow> list_all is_ascii t"
    using sd s unfolding q_def by (cases t) (auto split: if_splits)
  have "py_int p = (case q of (sgn, ds) \<Rightarrow> if digit_groups ds
      then Inr (sgn * digits_val (filter (\<lambda>c. c \<noteq> CHR ''_'') ds)) else Inl ValueError)"
    unfolding q_def t_def by (simp add: py_int_def Let_def)
  then have "py_int p = (if digit_groups ds
      then Inr (sgn * digits_val (filter (\<lambda>c. c \<noteq> CHR ''_'') ds)) else Inl ValueError)"
    by (simp only: sd prod.case)
  with assms have "digit_groups ds" by (auto split: if_splits)
  then have "list_all is_ascii ds" by (rule digit_groups_ascii)
  then have "list_all is_ascii t" by (rule t)
  then have a: "list_all is_ascii (strip whitespace p)"
    by (simp add: t_def strip_ws_def)
  have w: "\<forall>c \<in> set whitespace. is_ascii c"
    by (simp add: whitespace_ascii)
  from w a show ?thesis by (rule strip_ascii)
qed

text \<open>The code that \<open>cmd\<close> reads is \<open>int\<close> of three characters of one byte each.\<close>

lemma code_field:
  assumes "\<not> cp_len xs < 3" and "py_int (cp_take 3 xs) = Inr code"
  shows "\<exists>p. length p = 3 \<and> py_int p = Inr code"
proof -
  from assms(2) have "list_all is_ascii (cp_take 3 xs)" by (rule py_int_ascii)
  then have "length (cp_take 3 xs) = 3" using assms(1) by (rule cp_take_ascii)
  with assms(2) show ?thesis by blast
qed

section \<open>The socket is changed by reading and writing only\<close>

lemma sock_readline_frame:
  "sock_readline s = (r, s') \<Longrightarrow> s' = s\<lparr>inp := inp s'\<rparr>"
  by (auto simp: sock_readline_def split: prod.splits if_splits)

lemma sock_read_frame:
  "sock_read n s = (r, s') \<Longrightarrow> s' = s\<lparr>inp := inp s'\<rparr>"
  by (auto simp: sock_read_def split: if_splits)

text \<open>One induction over the loop of \<open>cmd\<close>: it changes nothing of the socket but the
  input, it appends at least one line, and the code is \<open>int\<close> of three characters.\<close>

lemma cmd_loop_frame:
  "cmd_loop c s acc = (r, s') \<Longrightarrow>
     s' = s\<lparr>inp := inp s'\<rparr> \<and>
     (\<forall>code ls. r = Inr (code, ls) \<longrightarrow>
        (\<exists>ls'. ls = acc @ ls' \<and> ls' \<noteq> []) \<and> (\<exists>p. length p = 3 \<and> py_int p = Inr code))"
proof (induction c s acc arbitrary: r s' rule: cmd_loop.induct)
  case (1 cmd_str s all_lines)
  obtain r1 s1 where rl: "sock_readline s = (r1, s1)"
    by (cases "sock_readline s")
  then have f1: "s1 = s\<lparr>inp := inp s1\<rparr>"
    by (rule sock_readline_frame)
  show ?case
  proof (cases "\<exists>line code. r1 = Inr line \<and> line \<noteq> [] \<and> \<not> cp_len (rstrip crlf (decode_replace line)) < 3
      \<and> py_int (cp_take 3 (rstrip crlf (decode_replace line))) = Inr code
      \<and> \<not> (cp_len (rstrip crlf (decode_replace line)) < 4
          \<or> cp_nth (rstrip crlf (decode_replace line)) 3 \<noteq> ''-'')")
    case True
    then obtain line code where h: "r1 = Inr line" "line \<noteq> []"
      "\<not> cp_len (rstrip crlf (decode_replace line)) < 3"
      "py_int (cp_take 3 (rstrip crlf (decode_replace line))) = Inr code"
      "\<not> (cp_len (rstrip crlf (decode_replace line)) < 4
          \<or> cp_nth (rstrip crlf (decode_replace line)) 3 \<noteq> ''-'')"
      by blast
    from "1.prems" rl h
    have rec: "cmd_loop cmd_str s1
                 (all_lines @ [lstrip ''- '' (cp_drop 3 (rstrip crlf (decode_replace line)))]) = (r, s')"
      by (subst (asm) cmd_loop.simps) (simp add: Let_def)
    have ih: "s' = s1\<lparr>inp := inp s'\<rparr> \<and>
     (\<forall>code ls. r = Inr (code, ls) \<longrightarrow>
        (\<exists>ls'. ls = (all_lines @ [lstrip ''- '' (cp_drop 3 (rstrip crlf (decode_replace line)))]) @ ls'
                 \<and> ls' \<noteq> [])
         \<and> (\<exists>p. length p = 3 \<and> py_int p = Inr code))"
      using "1.IH" [OF rl [symmetric] h(1) h(2) refl h(3) h(4) refl refl h(5) rec] .
    from ih f1 have "s' = s\<lparr>inp := inp s'\<rparr>"
      by (metis sock.update_convs(1) sock.surjective)
    moreover from ih have "\<forall>code ls. r = Inr (code, ls) \<longrightarrow>
        (\<exists>ls'. ls = all_lines @ ls' \<and> ls' \<noteq> []) \<and> (\<exists>p. length p = 3 \<and> py_int p = Inr code)"
      by auto
    ultimately show ?thesis by blast
  next
    case False
    with "1.prems" rl have "s' = s1 \<and> (\<forall>code ls. r = Inr (code, ls) \<longrightarrow>
        (\<exists>ls'. ls = all_lines @ ls' \<and> ls' \<noteq> []) \<and> (\<exists>p. length p = 3 \<and> py_int p = Inr code))"
      by (subst (asm) cmd_loop.simps)
         (auto simp: Let_def split: sum.splits if_splits intro: code_field)
    with f1 show ?thesis by simp
  qed
qed

lemma cmd_sock:
  assumes "cmd self c = (r, self')"
  shows "username self' = username self"
    and "sock self' = (sock self)\<lparr>out := out (sock self) @ (if c \<noteq> ''Initial greeting'' then [c @ crlf] else []),
                                   inp := inp (sock self')\<rparr>"
proof -
  let ?s = "if c \<noteq> ''Initial greeting''
            then sock_write (encode (c @ crlf)) (sock self) else sock self"
  obtain r1 s1 where l: "cmd_loop c ?s [] = (r1, s1)"
    by (cases "cmd_loop c ?s []")
  from assms l have e: "self' = self\<lparr>sock := s1\<rparr>"
    by (simp add: cmd_def Let_def)
  from l have f: "s1 = ?s\<lparr>inp := inp s1\<rparr>"
    using cmd_loop_frame by blast
  from e show "username self' = username self" by simp
  from e have "sock self' = s1" by simp
  with f show "sock self' = (sock self)\<lparr>out := out (sock self) @ (if c \<noteq> ''Initial greeting'' then [c @ crlf] else []),
                                   inp := inp (sock self')\<rparr>"
    by (cases "c = ''Initial greeting''") (simp_all add: sock_write_def encode_def)
qed

lemma cmd32_loop_frame:
  "cmd32_loop s resp = (r, s') \<Longrightarrow> s' = s\<lparr>inp := inp s'\<rparr>"
proof (induction s resp arbitrary: r s' rule: cmd32_loop.induct)
  case (1 s resp)
  obtain r1 s1 where rd: "sock_read 1 s = (r1, s1)"
    by (cases "sock_read 1 s")
  then have f1: "s1 = s\<lparr>inp := inp s1\<rparr>"
    by (rule sock_read_frame)
  obtain r2 s2 where rl: "sock_readline s1 = (r2, s2)"
    by (cases "sock_readline s1")
  then have f2: "s2 = s1\<lparr>inp := inp s2\<rparr>"
    by (rule sock_readline_frame)
  show ?case
  proof (cases "\<exists>l t. r1 = Inr ''-'' \<and> r2 = Inr l \<and> decode (strip_ws l) = Inr t")
    case True
    then obtain l t where h: "r1 = Inr ''-''" "r2 = Inr l" "decode (strip_ws l) = Inr t"
      by blast
    from "1.prems" rd rl h have rec: "cmd32_loop s2 (resp @ '' '' @ t) = (r, s')"
      by (subst (asm) cmd32_loop.simps) simp
    have "s' = s2\<lparr>inp := inp s'\<rparr>"
      using "1.IH" [OF rd [symmetric] h(1) refl rl [symmetric] h(2) h(3) rec] .
    with f1 f2 show ?thesis
      by (metis sock.update_convs(1) sock.surjective)
  next
    case False
    with "1.prems" rd rl have "s' = s1 \<or> s' = s2"
      by (subst (asm) cmd32_loop.simps) (auto split: sum.splits if_splits)
    with f1 f2 show ?thesis
      by (metis sock.update_convs(1) sock.surjective)
  qed
qed

lemma cmd32_sock:
  assumes "cmd32 self c = (r, self')"
  shows "username self' = username self"
    and "sock self' = (sock self)\<lparr>out := out (sock self) @ [c @ crlf], inp := inp (sock self')\<rparr>"
    and "\<forall>code ls. r = Inr (code, ls) \<longrightarrow> length ls = 1"
proof -
  let ?s0 = "sock_write (c @ crlf) (sock self)"
  obtain r1 s1 where a: "sock_read 3 ?s0 = (r1, s1)" by (cases "sock_read 3 ?s0")
  obtain r2 s2 where b: "sock_readline s1 = (r2, s2)" by (cases "sock_readline s1")
  obtain r3 s3 where d: "cmd32_loop s2 (projr (decode (strip_ws (projr r2)))) = (r3, s3)"
    by (cases "cmd32_loop s2 (projr (decode (strip_ws (projr r2))))")
  from a have fa: "s1 = ?s0\<lparr>inp := inp s1\<rparr>" by (rule sock_read_frame)
  from b have fb: "s2 = s1\<lparr>inp := inp s2\<rparr>" by (rule sock_readline_frame)
  from d have fd: "s3 = s2\<lparr>inp := inp s3\<rparr>" by (rule cmd32_loop_frame)
  from assms a b d have e: "self' = self\<lparr>sock := s1\<rparr> \<or> self' = self\<lparr>sock := s2\<rparr> \<or> self' = self\<lparr>sock := s3\<rparr>"
    by (auto simp: cmd32_def Let_def split: sum.splits if_splits)
  then show "username self' = username self" by auto
  have g: "\<And>x. x = s1 \<or> x = s2 \<or> x = s3 \<Longrightarrow> x = (sock self)\<lparr>out := out (sock self) @ [c @ crlf], inp := inp x\<rparr>"
    using fa fb fd by (auto simp: sock_write_def) (metis sock.update_convs(1) sock.surjective)+
  from e have "sock self' = s1 \<or> sock self' = s2 \<or> sock self' = s3" by auto
  then show "sock self' = (sock self)\<lparr>out := out (sock self) @ [c @ crlf], inp := inp (sock self')\<rparr>"
    by (rule g)
  from assms show "\<forall>code ls. r = Inr (code, ls) \<longrightarrow> length ls = 1"
    by (auto simp: cmd32_def Let_def split: sum.splits if_splits prod.splits)
qed

section \<open>\<open>to\<close> with no attempt to make\<close>

text \<open>
  \<^bold>\<open>C10.\<close> When \<open>retries\<close> is zero or negative, \<open>to\<close> runs no attempt: it raises
  nothing, returns \<open>None\<close> and leaves the session as it was, so no \<open>MAIL FROM\<close>,
  \<open>RCPT TO\<close> or \<open>DATA\<close> has been written. This holds in both files.
\<close>

theorem to_without_attempts:
  "retries \<le> 0 \<Longrightarrow>
     to self addrs mail_from retries = (Inr None, self) \<and>
     to32 self addrs mail_from retries = (Inr None, self) \<and>
     written self (snd (to self addrs mail_from retries)) = [] \<and>
     written self (snd (to32 self addrs mail_from retries)) = []"
  by (simp add: to_def to32_def to_gen_def py_range_def written_def)

theorem to_without_attempts_witness:
  "(- 1 :: int) \<le> 0 \<and>
   to (session_of ''250 ok'') (Lst [''a@example.org'']) (Some ''me@example.org'') (- 1)
     = (Inr None, session_of ''250 ok'') \<and>
   to32 (session_of ''250 ok'') (Lst [''a@example.org'']) (Some ''me@example.org'') (- 1)
     = (Inr None, session_of ''250 ok'')"
  using to_without_attempts [of "- 1" "session_of ''250 ok''" "Lst [''a@example.org'']"
      "Some ''me@example.org''"]
  by simp

section \<open>\<open>quit\<close>\<close>

text \<open>
  \<^bold>\<open>C9.\<close> Whatever the exchange of \<open>QUIT\<close> does (\<open>cmdf\<close> is any behaviour of
  \<open>self.cmd\<close>, returning a reply or raising), \<open>quit\<close> raises nothing and closes the
  stream the exchange left; with the \<open>cmd\<close> of either file the stream has then been
  closed exactly once more than before.
\<close>

theorem quit_closes_once:
  "fst (quit_gen cmdf self) = Inr () \<and>
   sock (snd (quit_gen cmdf self)) = sock_close (sock (snd (cmdf self ''QUIT''))) \<and>
   fst (quit self) = Inr () \<and>
   closes (sock (snd (quit self))) = Suc (closes (sock self)) \<and>
   fst (quit32 self) = Inr () \<and>
   closes (sock (snd (quit32 self))) = Suc (closes (sock self))"
proof -
  have g: "fst (quit_gen cmdf self) = Inr () \<and>
    sock (snd (quit_gen cmdf self)) = sock_close (sock (snd (cmdf self ''QUIT'')))" for cmdf
    by (cases "cmdf self ''QUIT''") (auto simp: quit_gen_def split: sum.splits)
  obtain r1 s1 where c1: "cmd self ''QUIT'' = (r1, s1)" by (cases "cmd self ''QUIT''")
  obtain r2 s2 where c2: "cmd32 self ''QUIT'' = (r2, s2)" by (cases "cmd32 self ''QUIT''")
  have "closes (sock s1) = closes (sock self)"
    by (subst cmd_sock(2) [OF c1]) simp
  moreover have "closes (sock s2) = closes (sock self)"
    by (subst cmd32_sock(2) [OF c2]) simp
  ultimately show ?thesis
    using g [of cmdf] g [of cmd] g [of cmd32] c1 c2
    by (simp add: quit_def quit32_def sock_close_def)
qed

theorem quit_closes_once_witness:
  "fst (quit (session_of [])) = Inr () \<and> closes (sock (snd (quit (session_of [])))) = 1 \<and>
   fst (quit32 (session_of [])) = Inr () \<and> closes (sock (snd (quit32 (session_of [])))) = 1"
  using quit_closes_once [of cmd "session_of []"]
  by (simp add: session_of_def sock_of_def)

section \<open>\<open>to\<close>: the retry loop\<close>

text \<open>While the attempts fail, the loop goes on with the session the failed attempt
  left, and the last attempt decides.\<close>

lemma to_loop_all_fail:
  "i < n \<Longrightarrow>
   (\<forall>k < n - i. isl (fst (to_attempt cmdf (after_attempts cmdf mf addrs k self) mf addrs))) \<Longrightarrow>
   to_loop cmdf self mf addrs (int n) (map int [i..<n])
     = apfst (map_sum id Some)
         (to_attempt cmdf (after_attempts cmdf mf addrs (n - i - 1) self) mf addrs)"
proof (induction "n - i" arbitrary: i self)
  case 0
  then show ?case by simp
next
  case (Suc d)
  from Suc.prems(1) have upt: "[i..<n] = i # [Suc i..<n]"
    by (simp add: upt_conv_Cons)
  from Suc.prems have "isl (fst (to_attempt cmdf (after_attempts cmdf mf addrs 0 self) mf addrs))"
    by (metis zero_less_diff)
  then obtain e self' where a: "to_attempt cmdf self mf addrs = (Inl e, self')"
    by (cases "to_attempt cmdf self mf addrs") (auto simp: isl_def)
  show ?case
  proof (cases "Suc i < n")
    case True
    have d: "d = n - Suc i" using Suc.hyps(2) by simp
    have f: "\<forall>k < n - Suc i.
        isl (fst (to_attempt cmdf (after_attempts cmdf mf addrs k self') mf addrs))"
    proof (intro allI impI)
      fix k assume "k < n - Suc i"
      then have "Suc k < n - i" by simp
      with Suc.prems(2)
      have "isl (fst (to_attempt cmdf (after_attempts cmdf mf addrs (Suc k) self) mf addrs))"
        by blast
      with a show "isl (fst (to_attempt cmdf (after_attempts cmdf mf addrs k self') mf addrs))"
        by simp
    qed
    have "to_loop cmdf self' mf addrs (int n) (map int [Suc i..<n])
            = apfst (map_sum id Some)
                (to_attempt cmdf (after_attempts cmdf mf addrs (n - Suc i - 1) self') mf addrs)"
      by (rule Suc.hyps(1) [OF d True f])
    moreover have "after_attempts cmdf mf addrs (n - Suc i - 1) self'
                     = after_attempts cmdf mf addrs (n - i - 1) self"
    proof -
      from True have "n - i - 1 = Suc (n - Suc i - 1)" by simp
      with a show ?thesis by simp
    qed
    ultimately show ?thesis using upt a True by simp
  next
    case False
    with Suc.prems(1) have n: "n = Suc i" by simp
    with upt a show ?thesis by simp
  qed
qed

text \<open>The commands written by one attempt, when \<open>cmd\<close> writes its command: one
  \<open>MAIL FROM\<close>, then only \<open>RCPT TO\<close> and \<open>DATA\<close>.\<close>

lemma rcpt_loop_out:
  assumes L: "\<And>self c. c \<noteq> ''Initial greeting'' \<Longrightarrow>
                out (sock (snd (cmdf self c))) = out (sock self) @ [c @ crlf]"
  shows "\<exists>ws. out (sock (snd (rcpt_loop cmdf self as count code resp))) = out (sock self) @ ws
              \<and> mail_from_count mf ws = 0"
proof (induction as arbitrary: self count code resp)
  case Nil
  show ?case by (simp add: mail_from_count_def)
next
  case (Cons a as)
  let ?c = "''RCPT TO: <'' @ a @ ''>''"
  obtain r self1 where c: "cmdf self ?c = (r, self1)" by (cases "cmdf self ?c")
  have o: "out (sock self1) = out (sock self) @ [?c @ crlf]"
    using L [of ?c self] c by simp
  show ?case
  proof (cases r)
    case (Inl e)
    with c o show ?thesis by (simp add: mail_from_count_def)
  next
    case (Inr p)
    obtain code' resp' where p: "p = (code', resp')" by (cases p)
    obtain ws where w: "out (sock (snd (rcpt_loop cmdf self1 as
          (if code' \<noteq> 250 \<and> code' \<noteq> 251 then count + 1 else count) code' resp')))
          = out (sock self1) @ ws" "mail_from_count mf ws = 0"
      using Cons.IH by blast
    from c Inr p w o show ?thesis
      by (intro exI [of _ "(?c @ crlf) # ws"]) (simp add: mail_from_count_def)
  qed
qed

lemma to_attempt_out:
  assumes L: "\<And>self c. c \<noteq> ''Initial greeting'' \<Longrightarrow>
                out (sock (snd (cmdf self c))) = out (sock self) @ [c @ crlf]"
  shows "\<exists>ws. out (sock (snd (to_attempt cmdf self mf addrs))) = out (sock self) @ ws
              \<and> mail_from_count mf ws = 1"
proof -
  let ?m = "''MAIL FROM: <'' @ mf @ ''>''"
  let ?as = "case addrs of Str a \<Rightarrow> [a] | Lst as \<Rightarrow> as"
  obtain r self1 where c: "cmdf self ?m = (r, self1)" by (cases "cmdf self ?m")
  have o: "out (sock self1) = out (sock self) @ [?m @ crlf]"
    using L [of ?m self] c by simp
  show ?thesis
  proof (cases "\<exists>resp. r = Inr (250, resp)")
    case False
    with c have "snd (to_attempt cmdf self mf addrs) = self1"
      by (auto simp: to_attempt_def split: sum.splits)
    with o show ?thesis by (simp add: mail_from_count_def)
  next
    case True
    then obtain resp where r: "r = Inr (250, resp)" by blast
    obtain r2 self2 where l: "rcpt_loop cmdf self1 ?as 0 250 resp = (r2, self2)"
      by (cases "rcpt_loop cmdf self1 ?as 0 250 resp")
    obtain ws where w: "out (sock self2) = out (sock self1) @ ws" "mail_from_count mf ws = 0"
      using rcpt_loop_out [OF L, of self1 ?as 0 250 resp mf] l by auto
    obtain r3 self3 where d: "cmdf self2 ''DATA'' = (r3, self3)" by (cases "cmdf self2 ''DATA''")
    have o3: "out (sock self3) = out (sock self2) @ [''DATA'' @ crlf]"
      using L [of "''DATA''" self2] d by simp
    from c r l d have "snd (to_attempt cmdf self mf addrs) = self2
        \<or> snd (to_attempt cmdf self mf addrs) = self3"
      by (auto simp: to_attempt_def Let_def split: sum.splits prod.splits)
    then show ?thesis
    proof
      assume "snd (to_attempt cmdf self mf addrs) = self2"
      with o w show ?thesis by (simp add: mail_from_count_def)
    next
      assume "snd (to_attempt cmdf self mf addrs) = self3"
      with o w o3 show ?thesis by (simp add: mail_from_count_def)
    qed
  qed
qed

lemma after_attempts_out:
  assumes L: "\<And>self c. c \<noteq> ''Initial greeting'' \<Longrightarrow>
                out (sock (snd (cmdf self c))) = out (sock self) @ [c @ crlf]"
  shows "\<exists>ws. out (sock (after_attempts cmdf mf addrs k self)) = out (sock self) @ ws
              \<and> mail_from_count mf ws = k"
proof (induction k arbitrary: self)
  case 0
  show ?case by (simp add: mail_from_count_def)
next
  case (Suc k)
  obtain ws1 where a: "out (sock (snd (to_attempt cmdf self mf addrs))) = out (sock self) @ ws1"
      "mail_from_count mf ws1 = 1"
    using to_attempt_out [OF L, of self mf addrs] by auto
  obtain ws2 where b: "out (sock (after_attempts cmdf mf addrs k (snd (to_attempt cmdf self mf addrs))))
       = out (sock (snd (to_attempt cmdf self mf addrs))) @ ws2" "mail_from_count mf ws2 = k"
    using Suc.IH by blast
  from a b show ?case
    by (intro exI [of _ "ws1 @ ws2"]) (simp add: mail_from_count_def)
qed

lemma cmd_logs:
  "c \<noteq> ''Initial greeting'' \<Longrightarrow> out (sock (snd (cmd self c))) = out (sock self) @ [c @ crlf]"
  by (subst cmd_sock(2) [OF surjective_pairing]) simp

lemma cmd32_logs:
  "out (sock (snd (cmd32 self c))) = out (sock self) @ [c @ crlf]"
  by (subst cmd32_sock(2) [OF surjective_pairing]) simp

lemma after_attempts_Suc:
  "after_attempts cmdf mf addrs (Suc k) self
     = snd (to_attempt cmdf (after_attempts cmdf mf addrs k self) mf addrs)"
  by (induction k arbitrary: self) simp_all

text \<open>
  \<^bold>\<open>C4.\<close> Let \<open>retries \<ge> 1\<close> and let every one of the \<open>retries\<close> attempts fail, each
  started in the session the one before left (\<open>cmdf\<close> is any behaviour of \<open>self.cmd\<close>).
  Then \<open>to\<close> makes exactly \<open>retries\<close> attempts, that is \<open>retries - 1\<close> retries: its
  outcome is the outcome of the attempt made after \<open>retries - 1\<close> failed ones, and the
  exception of that last attempt is raised as it is. Every attempt starts with
  \<open>MAIL FROM\<close>: with the \<open>cmd\<close> of either file, \<open>to\<close> has written the \<open>MAIL FROM\<close>
  command exactly \<open>retries\<close> times.
\<close>

theorem to_retries_when_all_attempts_fail:
  assumes "1 \<le> retries"
    and "mf = (case mail_from of None \<Rightarrow> fmt (username self) | Some m \<Rightarrow> m)"
    and "\<forall>k < nat retries.
           isl (fst (to_attempt cmdf (after_attempts cmdf mf addrs k self) mf addrs))"
  shows "(\<exists>e self'.
            to_attempt cmdf (after_attempts cmdf mf addrs (nat retries - 1) self) mf addrs
              = (Inl e, self') \<and>
            to_gen cmdf self addrs mail_from retries = (Inl e, self') \<and>
            self' = after_attempts cmdf mf addrs (nat retries) self) \<and>
         (cmdf = cmd \<or> cmdf = cmd32 \<longrightarrow>
            mail_from_count mf (written self (snd (to_gen cmdf self addrs mail_from retries)))
              = nat retries)"
proof -
  let ?n = "nat retries"
  let ?last = "to_attempt cmdf (after_attempts cmdf mf addrs (?n - 1) self) mf addrs"
  from assms(1) have n: "0 < ?n" "int ?n = retries" by simp_all
  from assms(3) n(1) have "isl (fst ?last)" by simp
  then obtain e self' where l: "?last = (Inl e, self')"
    by (cases ?last) (auto simp: isl_def)
  have "to_loop cmdf self mf addrs (int ?n) (map int [0..<?n])
          = apfst (map_sum id Some) ?last"
    using to_loop_all_fail [of 0 ?n cmdf mf addrs self] n(1) assms(3) by simp
  with l n(2) assms(2) have t: "to_gen cmdf self addrs mail_from retries = (Inl e, self')"
    by (simp add: to_gen_def py_range_def)
  from n(1) have "?n = Suc (?n - 1)" by simp
  then have "after_attempts cmdf mf addrs ?n self = snd ?last"
    using after_attempts_Suc [of cmdf mf addrs "?n - 1" self] by simp
  with l have s: "self' = after_attempts cmdf mf addrs ?n self" by simp
  have "mail_from_count mf (written self self') = ?n" if c: "cmdf = cmd \<or> cmdf = cmd32"
  proof -
    have L: "\<And>self c. c \<noteq> ''Initial greeting'' \<Longrightarrow>
                out (sock (snd (cmdf self c))) = out (sock self) @ [c @ crlf]"
      using c cmd_logs cmd32_logs by auto
    obtain ws where "out (sock (after_attempts cmdf mf addrs ?n self)) = out (sock self) @ ws"
        "mail_from_count mf ws = ?n"
      using after_attempts_out [of cmdf mf addrs ?n self] L by blast
    with s show ?thesis by (simp add: written_def)
  qed
  with l t s show ?thesis by simp
qed

theorem to_retries_when_all_attempts_fail_witness:
  "to (session_of (''250 ok'' @ crlf @ ''550 no'' @ crlf @ ''250 ok'' @ crlf @ ''550 no'' @ crlf))
      (Str ''a@example.org'') (Some ''me@example.org'') 2
     = (Inl (AllRecipientsRefused 550 [''no'']),
        after_attempts cmd ''me@example.org'' (Str ''a@example.org'') 2
          (session_of (''250 ok'' @ crlf @ ''550 no'' @ crlf @ ''250 ok'' @ crlf @ ''550 no'' @ crlf))) \<and>
   mail_from_count ''me@example.org''
     (written (session_of (''250 ok'' @ crlf @ ''550 no'' @ crlf @ ''250 ok'' @ crlf @ ''550 no'' @ crlf))
        (snd (to (session_of (''250 ok'' @ crlf @ ''550 no'' @ crlf @ ''250 ok'' @ crlf @ ''550 no'' @ crlf))
                (Str ''a@example.org'') (Some ''me@example.org'') 2))) = 2"
proof -
  let ?S = "session_of (''250 ok'' @ crlf @ ''550 no'' @ crlf @ ''250 ok'' @ crlf @ ''550 no'' @ crlf)"
  let ?mf = "''me@example.org''"
  let ?a = "Str ''a@example.org''"
  have h1: "(1::int) \<le> 2" by simp
  have h2: "?mf = (case Some ?mf of None \<Rightarrow> fmt (username ?S) | Some m \<Rightarrow> m)" by simp
  have a0: "isl (fst (to_attempt cmd (after_attempts cmd ?mf ?a 0 ?S) ?mf ?a))"
    by code_simp
  have a1: "isl (fst (to_attempt cmd (after_attempts cmd ?mf ?a 1 ?S) ?mf ?a))"
    by code_simp
  have h3: "\<forall>k < nat 2. isl (fst (to_attempt cmd (after_attempts cmd ?mf ?a k ?S) ?mf ?a))"
  proof (intro allI impI)
    fix k :: nat assume "k < nat 2"
    then have "k = 0 \<or> k = 1" by auto
    with a0 a1 show "isl (fst (to_attempt cmd (after_attempts cmd ?mf ?a k ?S) ?mf ?a))" by auto
  qed
  have l: "to_attempt cmd (after_attempts cmd ?mf ?a (nat 2 - 1) ?S) ?mf ?a
             = (Inl (AllRecipientsRefused 550 [''no'']),
                snd (to_attempt cmd (after_attempts cmd ?mf ?a (nat 2 - 1) ?S) ?mf ?a))"
    by code_simp
  have n: "nat 2 = (2::nat)" by simp
  from to_retries_when_all_attempts_fail [OF h1 h2 h3]
  obtain e self' where
    e: "to_attempt cmd (after_attempts cmd ?mf ?a (nat 2 - 1) ?S) ?mf ?a = (Inl e, self')"
    and t: "to_gen cmd ?S ?a (Some ?mf) 2 = (Inl e, self')"
    and s: "self' = after_attempts cmd ?mf ?a (nat 2) ?S"
    and c: "mail_from_count ?mf (written ?S (snd (to_gen cmd ?S ?a (Some ?mf) 2))) = nat 2"
    by blast
  from e l have "e = AllRecipientsRefused 550 [''no'']" by simp
  with t s c n show ?thesis by (simp only: to_def)
qed

section \<open>Reading a well-formed reply\<close>

lemma split_line_LF:
  "CHR 0x0A \<notin> set l \<Longrightarrow> split_line (l @ CHR 0x0A # r) = (l @ [CHR 0x0A], r)"
  by (induction l) auto

lemma rstrip_strippable:
  "\<forall>c \<in> set b. c \<in> set cs \<Longrightarrow> rstrip cs (a @ b) = rstrip cs a"
  by (simp add: rstrip_def dropWhile_append)

lemma rstrip_stop:
  "x \<notin> set cs \<Longrightarrow> rstrip cs (a @ x # b) = a @ x # rstrip cs b"
  by (simp add: rstrip_def dropWhile_append)

lemma lstrip_id:
  "s \<noteq> [] \<Longrightarrow> hd s \<notin> set cs \<Longrightarrow> lstrip cs s = s"
  by (cases s) (simp_all add: lstrip_def)

lemma rstrip_id:
  "s \<noteq> [] \<Longrightarrow> last s \<notin> set cs \<Longrightarrow> rstrip cs s = s"
  by (cases s rule: rev_cases) (simp_all add: rstrip_def)

lemma is_digit_not_special:
  "is_digit c \<Longrightarrow> c \<notin> set whitespace \<and> c \<noteq> CHR ''-'' \<and> c \<noteq> CHR ''+'' \<and> c \<noteq> CHR ''_''
     \<and> c \<notin> set crlf"
  unfolding is_digit_def whitespace_def crlf_def by auto

lemma digit_groups_digits:
  "ds \<noteq> [] \<Longrightarrow> list_all is_digit ds \<Longrightarrow> digit_groups ds"
proof (induction ds rule: digit_groups.induct)
  case 1
  then show ?case by simp
next
  case (2 c)
  then show ?case by simp
next
  case (3 c d ds)
  from "3.prems" have "is_digit c" "is_digit d" "list_all is_digit (d # ds)" by simp_all
  moreover from \<open>is_digit d\<close> have "d \<noteq> CHR ''_''" by (simp add: is_digit_not_special)
  ultimately show ?case using "3.IH"(2) by simp
qed

lemma strip_ws_digits:
  assumes "ds \<noteq> []" "list_all is_digit ds"
  shows "strip_ws ds = ds"
proof -
  from assms have "is_digit (hd ds)" "is_digit (last ds)"
    by (simp_all add: list_all_iff)
  then have "hd ds \<notin> set whitespace" "last ds \<notin> set whitespace"
    by (simp_all add: is_digit_not_special)
  with assms(1) show ?thesis
    by (simp add: strip_ws_def strip_def lstrip_id rstrip_id)
qed

lemma filter_digits:
  "list_all is_digit ds \<Longrightarrow> filter (\<lambda>c. c \<noteq> CHR ''_'') ds = ds"
  by (induction ds) (simp_all add: is_digit_not_special)

lemma py_int_digits:
  assumes "ds \<noteq> []" "list_all is_digit ds"
  shows "py_int ds = Inr (digits_val ds)"
proof -
  from assms obtain c r where d: "ds = c # r" "is_digit c"
    by (cases ds) auto
  from d(2) have n: "c \<noteq> CHR ''-''" "c \<noteq> CHR ''+''"
    by (simp_all add: is_digit_not_special)
  have "py_int ds = (if digit_groups ds
      then Inr (1 * digits_val (filter (\<lambda>c. c \<noteq> CHR ''_'') ds)) else Inl ValueError)"
    unfolding py_int_def strip_ws_digits [OF assms] using d(1) n by simp
  then show ?thesis
    using digit_groups_digits [OF assms] filter_digits [OF assms(2)] by simp
qed

lemma sock_readline_line:
  "CHR 0x0A \<notin> set l \<Longrightarrow>
     sock_readline (s\<lparr>inp := l @ crlf @ rest\<rparr>) = (Inr (l @ crlf), s\<lparr>inp := rest\<rparr>)"
proof -
  assume a: "CHR 0x0A \<notin> set l"
  from a have "CHR 0x0A \<notin> set (l @ [CHR 0x0D])" by simp
  then have "split_line ((l @ [CHR 0x0D]) @ CHR 0x0A # rest) = ((l @ [CHR 0x0D]) @ [CHR 0x0A], rest)"
    by (rule split_line_LF)
  then show ?thesis
    unfolding sock_readline_def crlf_def by simp
qed

lemma rstrip_reply_line:
  assumes "sep = CHR ''-'' \<or> sep = CHR '' ''"
  shows "rstrip crlf (reply_line code sep tx) = code @ sep # rstrip crlf tx"
proof -
  have "reply_line code sep tx = (code @ sep # tx) @ crlf"
    by (simp add: reply_line_def)
  then have "rstrip crlf (reply_line code sep tx) = rstrip crlf (code @ sep # tx)"
    using rstrip_strippable [of crlf crlf "code @ sep # tx"] by simp
  moreover from assms have "sep \<notin> set crlf" by (auto simp: crlf_def)
  ultimately show ?thesis by (simp add: rstrip_stop)
qed

text \<open>Decoding a reply line changes its text only.\<close>

lemma decode_reply_line:
  assumes "list_all is_digit code" and "sep = CHR ''-'' \<or> sep = CHR '' ''"
  shows "decode_replace (reply_line code sep tx) = reply_line code sep (decode_replace tx)"
proof -
  from assms(1) have asc: "list_all is_ascii code"
    by (simp add: list_all_iff is_digit_ascii)
  from assms(2) have sa: "is_ascii sep"
    by (auto simp: is_ascii_def)
  have cr: "is_ascii (CHR 0x0D)" "is_ascii (CHR 0x0A)" by (simp_all add: is_ascii_def)
  have "decode_replace (tx @ crlf) = decode_replace tx @ crlf"
    unfolding crlf_def using cr by (simp add: decode_replace_append)
  then have "decode_replace (sep # tx @ crlf) = sep # decode_replace tx @ crlf"
    using sa by simp
  then show ?thesis
    unfolding reply_line_def using asc by (simp add: decode_replace_ascii_prefix)
qed

lemma cmd_loop_line:
  assumes c: "code_ok code" and t: "text_ok tx" and s: "sep = CHR ''-'' \<or> sep = CHR '' ''"
  shows "cmd_loop c (s\<lparr>inp := reply_line code sep tx @ rest\<rparr>) acc =
     (if sep = CHR ''-'' then cmd_loop c (s\<lparr>inp := rest\<rparr>) (acc @ [kept tx])
      else (Inr (digits_val code, acc @ [kept tx]), s\<lparr>inp := rest\<rparr>))"
proof -
  from c have len: "length code = 3" and dig: "list_all is_digit code" and ne: "code \<noteq> []"
    by (auto simp: code_ok_def)
  have "\<not> is_digit (CHR 0x0A)" by (simp add: is_digit_def)
  with dig have "CHR 0x0A \<notin> set code"
    unfolding list_all_iff by blast
  moreover from s have "sep \<noteq> CHR 0x0A" by auto
  ultimately have "CHR 0x0A \<notin> set (code @ sep # tx)"
    using t by (simp add: text_ok_def)
  then have rl: "sock_readline (s\<lparr>inp := reply_line code sep tx @ rest\<rparr>)
                   = (Inr (reply_line code sep tx), s\<lparr>inp := rest\<rparr>)"
    using sock_readline_line [where l = "code @ sep # tx" and s = s and rest = rest]
    by (simp add: reply_line_def)
  have nonempty: "reply_line code sep tx \<noteq> []" by (simp add: reply_line_def)
  define R where "R = rstrip crlf (decode_replace tx)"
  let ?ls = "code @ sep # R"
  from dig have single: "list_all (\<lambda>c. \<not> is_cont c) code"
    by (simp add: list_all_iff is_digit_ascii ascii_not_cont)
  from s have sc: "\<not> is_cont sep"
    by (auto simp: is_cont_def)
  have "decode_replace (reply_line code sep tx) = reply_line code sep (decode_replace tx)"
    using dig s by (rule decode_reply_line)
  then have ls: "rstrip crlf (decode_replace (reply_line code sep tx)) = ?ls"
    by (simp add: rstrip_reply_line [OF s] R_def)
  have "cp_len ?ls = 3 + cp_len (sep # R)"
    using cp_len_single [OF single] len by (simp add: cp_len_append)
  with sc have l0: "\<not> cp_len ?ls < 3" "\<not> cp_len ?ls < 4"
    by (simp_all add: cp_len_def)
  from cp_prefix [OF single sc, of R] len
  have l2: "cp_take 3 ?ls = code" "cp_drop 3 ?ls = sep # R"
    by simp_all
  have "takeWhile is_cont R = []"
    unfolding R_def by (rule rstrip_decode_head)
  then have "cp_take 1 (sep # R) = [sep]"
    by simp
  then have l3: "cp_nth ?ls 3 = [sep]"
    by (simp only: cp_nth_def l2)
  from s have k: "lstrip ''- '' (sep # R) = kept tx"
    by (auto simp: lstrip_def kept_def R_def)
  show ?thesis
    apply (subst cmd_loop.simps)
    apply (simp only: rl prod.case sum.case nonempty if_False Let_def ls)
    apply (simp only: l0 l2 l3 k py_int_digits [OF ne dig] sum.case if_False simp_thms)
    apply simp
    done
qed

text \<open>A whole reply: the continuation lines in order, then the final line.\<close>

lemma cmd_loop_reply:
  assumes "list_all line_ok conts" and "line_ok final"
  shows "cmd_loop c (s\<lparr>inp := wire_reply conts final @ rest\<rparr>) acc =
     (Inr (digits_val (fst final), acc @ map (kept \<circ> snd) conts @ [kept (snd final)]),
      s\<lparr>inp := rest\<rparr>)"
  using assms(1)
proof (induction conts arbitrary: acc s)
  case Nil
  from assms(2) show ?case
    using cmd_loop_line [where code = "fst final" and tx = "snd final" and sep = "CHR '' ''"
        and c = c and s = s and rest = rest and acc = acc]
    by (simp add: wire_reply_def line_ok_def)
next
  case (Cons l conts)
  obtain code tx where l: "l = (code, tx)" by (cases l)
  from Cons.prems have "line_ok l" and ok3: "list_all line_ok conts"
    by simp_all
  with l have ok: "code_ok code" "text_ok tx"
    by (simp_all add: line_ok_def)
  have w: "wire_reply (l # conts) final @ rest
             = reply_line code (CHR ''-'') tx @ (wire_reply conts final @ rest)"
    by (simp add: wire_reply_def l)
  have "cmd_loop c (s\<lparr>inp := wire_reply (l # conts) final @ rest\<rparr>) acc
          = cmd_loop c (s\<lparr>inp := wire_reply conts final @ rest\<rparr>) (acc @ [kept tx])"
    unfolding w
    using cmd_loop_line [OF ok(1) ok(2), where sep = "CHR ''-''" and c = c and s = s and acc = acc]
    by simp
  also have "\<dots> = (Inr (digits_val (fst final),
                        (acc @ [kept tx]) @ map (kept \<circ> snd) conts @ [kept (snd final)]),
                   s\<lparr>inp := rest\<rparr>)"
    by (rule Cons.IH [OF ok3])
  finally show ?case by (simp add: l)
qed

lemma cmd_reply:
  assumes "list_all line_ok conts" and "line_ok final"
    and "inp (sock self) = wire_reply conts final @ rest"
  shows "cmd self c =
     (Inr (digits_val (fst final), map (kept \<circ> snd) conts @ [kept (snd final)]),
      self\<lparr>sock := (sock self)\<lparr>out := out (sock self)
                                      @ (if c \<noteq> ''Initial greeting'' then [c @ crlf] else []),
                                  inp := rest\<rparr>\<rparr>)"
proof -
  let ?o = "out (sock self) @ (if c \<noteq> ''Initial greeting'' then [c @ crlf] else [])"
  have "(if c \<noteq> ''Initial greeting'' then sock_write (encode (c @ crlf)) (sock self)
         else sock self)
          = ((sock self)\<lparr>out := ?o\<rparr>)\<lparr>inp := wire_reply conts final @ rest\<rparr>"
    using assms(3) by (simp add: sock_write_def encode_def)
  then show ?thesis
    using cmd_loop_reply [OF assms(1,2), where c = c and rest = rest and acc = "[]"
        and s = "(sock self)\<lparr>out := ?o\<rparr>"]
    by (simp add: cmd_def)
qed


section \<open>Multi-line replies\<close>









section \<open>Single-line replies\<close>

lemma kept_valid:
  "utf8_valid tx \<Longrightarrow> kept tx = lstrip ''- '' (rstrip crlf tx)"
  by (simp add: kept_def decode_replace_valid)

lemma kept_unchanged:
  "utf8_valid tx \<Longrightarrow> tx = [] \<or> (hd tx \<notin> set ''- '' \<and> last tx \<notin> set crlf) \<Longrightarrow> kept tx = tx"
  by (cases "tx = []")
     (simp_all add: kept_valid rstrip_id lstrip_id, simp add: rstrip_def lstrip_def)

lemma cmd_dash_then_closed:
  assumes "code_ok code" and "text_ok tx" and "inp (sock self) = reply_line code (CHR ''-'') tx"
    and "\<not> stalls (sock self)"
  shows "fst (cmd self c) = Inl (NoResponseFor c)"
proof -
  let ?s = "if c \<noteq> ''Initial greeting''
            then sock_write (encode (c @ crlf)) (sock self) else sock self"
  have s: "?s = ?s\<lparr>inp := reply_line code (CHR ''-'') tx @ []\<rparr>"
    using assms(3) by (simp add: sock_write_def)
  have e: "sock_readline (?s\<lparr>inp := []\<rparr>) = (Inr [], ?s\<lparr>inp := []\<rparr>)"
    using assms(4) by (simp add: sock_readline_def sock_write_def)
  have "cmd_loop c ?s [] = cmd_loop c (?s\<lparr>inp := []\<rparr>) ([] @ [kept tx])"
    by (subst s, subst cmd_loop_line [OF assms(1,2)]) simp_all
  also have "\<dots> = (Inl (NoResponseFor c), ?s\<lparr>inp := []\<rparr>)"
    by (subst cmd_loop.simps) (simp add: e)
  finally show ?thesis
    by (simp add: cmd_def Let_def)
qed

text \<open>A byte that is not UTF-8 comes back as U+FFFD: of \<open>250 caf\xe9\<close> the line kept is
  \<open>caf\ufffd\<close>.\<close>

lemma cmd_replaces_invalid_byte:
  "fst (cmd (session_of (reply_line ''250'' (CHR '' '') (''caf'' @ [CHR 0xE9]))) ''NOOP'')
     = Inr (250, [''caf'' @ [CHR 0xEF, CHR 0xBF, CHR 0xBD]])"
  by code_simp

text \<open>
  \<^bold>\<open>C6\<close>, as amended. For a single-line reply \<open>CCC text\<close> (three digits, a space, a text
  without line feed) \<open>cmd\<close> of umailesp.py returns the code \<open>CCC\<close> and the one line
  \<^term>\<open>kept text\<close>: the text as \<open>decode('utf-8', 'replace')\<close> gives it, without its
  trailing CR and LF and without \<^emph>\<open>all\<close> its leading spaces and dashes. When the text is
  well-formed UTF-8 (ASCII is) the decoding changes nothing, and the line is the text
  itself when moreover it is empty or begins with neither a space nor a dash and does
  not end with CR. A dash after the code does not end a reply: when the server sends
  \<open>CCC-text\<close> and closes, \<open>cmd\<close> raises \<open>No response\<close>.
\<close>

theorem cmd_single_line_reply:
  "(code_ok code \<and> text_ok tx \<and> inp (sock self) = reply_line code (CHR '' '') tx @ rest
      \<longrightarrow> fst (cmd self c) = Inr (digits_val code, [kept tx]) \<and>
          inp (sock (snd (cmd self c))) = rest \<and>
          kept tx = lstrip ''- '' (rstrip crlf (decode_replace tx)) \<and>
          (utf8_valid tx \<longrightarrow> kept tx = lstrip ''- '' (rstrip crlf tx)) \<and>
          (utf8_valid tx \<and> (tx = [] \<or> (hd tx \<notin> set ''- '' \<and> last tx \<notin> set crlf))
             \<longrightarrow> kept tx = tx)) \<and>
   (code_ok code \<and> text_ok tx \<and> inp (sock self) = reply_line code (CHR ''-'') tx
      \<and> \<not> stalls (sock self)
      \<longrightarrow> fst (cmd self c) = Inl (NoResponseFor c))"
proof (intro conjI impI)
  assume a: "code_ok code \<and> text_ok tx \<and> inp (sock self) = reply_line code (CHR '' '') tx @ rest"
  then have "list_all line_ok []" "line_ok (code, tx)"
    "inp (sock self) = wire_reply [] (code, tx) @ rest"
    by (simp_all add: line_ok_def wire_reply_def)
  from cmd_reply [OF this, of c]
  show "fst (cmd self c) = Inr (digits_val code, [kept tx])"
    and "inp (sock (snd (cmd self c))) = rest"
    by simp_all
next
  show "kept tx = lstrip ''- '' (rstrip crlf (decode_replace tx))" by (simp add: kept_def)
next
  assume "utf8_valid tx"
  then show "kept tx = lstrip ''- '' (rstrip crlf tx)" by (rule kept_valid)
next
  assume "utf8_valid tx \<and> (tx = [] \<or> hd tx \<notin> set ''- '' \<and> last tx \<notin> set crlf)"
  then show "kept tx = tx" using kept_unchanged [of tx] by blast
next
  assume "code_ok code \<and> text_ok tx \<and> inp (sock self) = reply_line code (CHR ''-'') tx
      \<and> \<not> stalls (sock self)"
  then show "fst (cmd self c) = Inl (NoResponseFor c)"
    by (intro cmd_dash_then_closed [of code tx]) simp_all
qed

theorem cmd_single_line_reply_witness:
  "fst (cmd (session_of (reply_line ''250'' (CHR '' '') ''OK'')) ''NOOP'') = Inr (250, [''OK'']) \<and>
   kept ''OK'' = ''OK'' \<and>
   fst (cmd (session_of (reply_line ''250'' (CHR ''-'') ''OK'')) ''NOOP'') = Inl (NoResponseFor ''NOOP'')"
proof -
  have u: "utf8_valid ''OK''" by code_simp
  have n: "''OK'' = [] \<or> (hd ''OK'' \<notin> set ''- '' \<and> last ''OK'' \<notin> set crlf)"
    by (simp add: crlf_def)
  have h1: "code_ok ''250'' \<and> text_ok ''OK'' \<and>
      inp (sock (session_of (reply_line ''250'' (CHR '' '') ''OK'')))
        = reply_line ''250'' (CHR '' '') ''OK'' @ []"
    by (simp add: code_ok_def text_ok_def is_digit_def session_of_def sock_of_def)
  have h2: "code_ok ''250'' \<and> text_ok ''OK'' \<and>
      inp (sock (session_of (reply_line ''250'' (CHR ''-'') ''OK'')))
        = reply_line ''250'' (CHR ''-'') ''OK'' \<and>
      \<not> stalls (sock (session_of (reply_line ''250'' (CHR ''-'') ''OK'')))"
    by (simp add: code_ok_def text_ok_def is_digit_def session_of_def sock_of_def)
  have v: "digits_val ''250'' = 250" by code_simp
  from cmd_single_line_reply [of "''250''" "''OK''"
      "session_of (reply_line ''250'' (CHR '' '') ''OK'')" "[]" "''NOOP''"] h1 u n
  have "fst (cmd (session_of (reply_line ''250'' (CHR '' '') ''OK'')) ''NOOP'')
          = Inr (digits_val ''250'', [kept ''OK''])"
    and k: "kept ''OK'' = ''OK''"
    by blast+
  moreover from cmd_single_line_reply [of "''250''" "''OK''"
      "session_of (reply_line ''250'' (CHR ''-'') ''OK'')" "[]" "''NOOP''"] h2
  have "fst (cmd (session_of (reply_line ''250'' (CHR ''-'') ''OK'')) ''NOOP'')
          = Inl (NoResponseFor ''NOOP'')"
    by blast
  ultimately show ?thesis unfolding v by simp
qed

text \<open>
  The claim as it is written fails twice: of the text \<open>-OK\<close> after the space the dash is
  stripped as well, and the reply \<open>250-OK\<close> with a dash as the separator is not returned
  as \<open>(250, ["OK"])\<close>.
\<close>

theorem cmd_single_line_reply_counterexample:
  "fst (cmd (session_of (reply_line ''250'' (CHR '' '') ''-OK'')) ''NOOP'') = Inr (250, [''OK'']) \<and>
   [''OK''] \<noteq> [''-OK''] \<and>
   fst (cmd (session_of (reply_line ''250'' (CHR ''-'') ''OK'')) ''NOOP'')
     = Inl (NoResponseFor ''NOOP'')"
  by code_simp

section \<open>The invariant of a reply\<close>











section \<open>\<open>to\<close>: recipients accepted and refused\<close>

lemma cmd_wire:
  assumes "reply_ok r" and "inp (sock self) = wire r @ rest" and "c \<noteq> ''Initial greeting''"
  shows "cmd self c =
     (Inr (reply_code r, map (kept \<circ> snd) (fst r) @ [kept (snd (snd r))]),
      self\<lparr>sock := (sock self)\<lparr>out := out (sock self) @ [c @ crlf], inp := rest\<rparr>\<rparr>)"
  using assms cmd_reply [of "fst r" "snd r" self rest c]
  by (simp add: reply_ok_def wire_def reply_code_def)

text \<open>The loop over the recipients, when the server answers each \<open>RCPT TO\<close> with a
  well-formed reply: it counts the replies that are not accepted.\<close>

lemma rcpt_loop_wire:
  assumes "list_all reply_ok rs" and "length rs = length as"
    and "inp (sock self) = concat (map wire rs) @ rest"
  shows "\<exists>code' resp'.
     rcpt_loop cmd self as count code resp =
       (Inr (count + length (filter (\<lambda>r. \<not> accepted r) rs), code', resp'),
        self\<lparr>sock := (sock self)\<lparr>out := out (sock self)
                                        @ map (\<lambda>a. ''RCPT TO: <'' @ a @ ''>'' @ crlf) as,
                                    inp := rest\<rparr>\<rparr>)"
  using assms
proof (induction as arbitrary: rs self count code resp)
  case Nil
  then show ?case by simp
next
  case (Cons a as)
  from Cons.prems(2) obtain r rs' where rs: "rs = r # rs'" by (cases rs) auto
  with Cons.prems have ok: "reply_ok r" "list_all reply_ok rs'" "length rs' = length as"
    and i: "inp (sock self) = wire r @ (concat (map wire rs') @ rest)"
    by simp_all
  let ?c = "''RCPT TO: <'' @ a @ ''>''"
  let ?self1 = "self\<lparr>sock := (sock self)\<lparr>out := out (sock self) @ [?c @ crlf],
                                         inp := concat (map wire rs') @ rest\<rparr>\<rparr>"
  let ?ls = "map (kept \<circ> snd) (fst r) @ [kept (snd (snd r))]"
  have c: "cmd self ?c = (Inr (reply_code r, ?ls), ?self1)"
    by (rule cmd_wire [OF ok(1) i]) simp
  let ?count = "if reply_code r \<noteq> 250 \<and> reply_code r \<noteq> 251 then count + 1 else count"
  have "inp (sock ?self1) = concat (map wire rs') @ rest" by simp
  from Cons.IH [OF ok(2) ok(3) this, of ?count "reply_code r" ?ls]
  obtain code' resp' where
    "rcpt_loop cmd ?self1 as ?count (reply_code r) ?ls =
       (Inr (?count + length (filter (\<lambda>r. \<not> accepted r) rs'), code', resp'),
        ?self1\<lparr>sock := (sock ?self1)\<lparr>out := out (sock ?self1)
                                        @ map (\<lambda>a. ''RCPT TO: <'' @ a @ ''>'' @ crlf) as,
                                    inp := rest\<rparr>\<rparr>)"
    by blast
  with c rs show ?case
    by (simp add: accepted_def)
qed

text \<open>The exceptions that \<open>cmd\<close> of umailesp.py raises.\<close>

lemma cmd_loop_errors:
  "cmd_loop c s acc = (Inl e, s') \<Longrightarrow>
     e = OSError \<or> e = NoResponseFor c \<or> (\<exists>l. e = InvalidLine c l) \<or> (\<exists>l. e = InvalidCode c l)"
proof (induction c s acc arbitrary: s' rule: cmd_loop.induct)
  case (1 cmd_str s all_lines)
  obtain r1 s1 where rl: "sock_readline s = (r1, s1)"
    by (cases "sock_readline s")
  show ?case
  proof (cases "\<exists>line code. r1 = Inr line \<and> line \<noteq> [] \<and> \<not> cp_len (rstrip crlf (decode_replace line)) < 3
      \<and> py_int (cp_take 3 (rstrip crlf (decode_replace line))) = Inr code
      \<and> \<not> (cp_len (rstrip crlf (decode_replace line)) < 4
          \<or> cp_nth (rstrip crlf (decode_replace line)) 3 \<noteq> ''-'')")
    case True
    then obtain line code where h: "r1 = Inr line" "line \<noteq> []"
      "\<not> cp_len (rstrip crlf (decode_replace line)) < 3"
      "py_int (cp_take 3 (rstrip crlf (decode_replace line))) = Inr code"
      "\<not> (cp_len (rstrip crlf (decode_replace line)) < 4
          \<or> cp_nth (rstrip crlf (decode_replace line)) 3 \<noteq> ''-'')"
      by blast
    from "1.prems" rl h
    have rec: "cmd_loop cmd_str s1
                 (all_lines @ [lstrip ''- '' (cp_drop 3 (rstrip crlf (decode_replace line)))]) = (Inl e, s')"
      by (subst (asm) cmd_loop.simps) (simp add: Let_def)
    show ?thesis
      using "1.IH" [OF rl [symmetric] h(1) h(2) refl h(3) h(4) refl refl h(5) rec] .
  next
    case False
    have r1: "r1 = Inl OSError \<or> (\<exists>l. r1 = Inr l)"
      using rl by (auto simp: sock_readline_def split: prod.splits if_splits)
    from False "1.prems" rl r1 show ?thesis
      by (subst (asm) cmd_loop.simps) (auto simp: Let_def split: sum.splits if_splits)
  qed
qed

lemma cmd_errors:
  assumes "cmd self c = (Inl e, self')"
  shows "e = OSError \<or> e = NoResponseFor c \<or> (\<exists>l. e = InvalidLine c l) \<or> (\<exists>l. e = InvalidCode c l)"
proof -
  let ?s = "if c \<noteq> ''Initial greeting''
            then sock_write (encode (c @ crlf)) (sock self) else sock self"
  from assms have "cmd_loop c ?s [] = (Inl e, sock self')"
    by (cases "cmd_loop c ?s []") (auto simp: cmd_def Let_def)
  then show ?thesis by (rule cmd_loop_errors)
qed

lemma to_loop_out:
  assumes L: "\<And>self c. c \<noteq> ''Initial greeting'' \<Longrightarrow>
                out (sock (snd (cmdf self c))) = out (sock self) @ [c @ crlf]"
  shows "\<exists>ws. out (sock (snd (to_loop cmdf self mf addrs retries xs))) = out (sock self) @ ws"
proof (induction xs arbitrary: self)
  case Nil
  show ?case by simp
next
  case (Cons x xs)
  obtain r self1 where a: "to_attempt cmdf self mf addrs = (r, self1)"
    by (cases "to_attempt cmdf self mf addrs")
  obtain ws1 where w1: "out (sock self1) = out (sock self) @ ws1"
    using to_attempt_out [OF L, of self mf addrs] a by auto
  obtain ws2 where w2: "out (sock (snd (to_loop cmdf self1 mf addrs retries xs)))
                          = out (sock self1) @ ws2"
    using Cons.IH by blast
  show ?case
  proof (cases "isl r \<and> x < retries - 1")
    case True
    with a w1 w2 show ?thesis
      by (intro exI [of _ "ws1 @ ws2"]) (auto simp: isl_def)
  next
    case False
    with a have "snd (to_loop cmdf self mf addrs retries (x # xs)) = self1"
      by (cases r) auto
    with w1 show ?thesis by auto
  qed
qed

text \<open>
  \<^bold>\<open>C5.\<close> Let the server accept the sender (a well-formed reply of code 250 to
  \<open>MAIL FROM\<close>) and answer the \<open>RCPT TO\<close> of each recipient of the list with a well-formed
  reply, at least one of them accepting (code 250 or 251) and at least one refusing. Then
  the attempt of \<open>to\<close> in umailesp.py (the body of \<open>try\<close>) goes on to \<open>DATA\<close>: it has
  written \<open>MAIL FROM\<close>, one \<open>RCPT TO\<close> for each recipient and then \<open>DATA\<close>, and it does
  not raise \<open>All recipients refused\<close>. So \<open>to\<close> with \<open>retries \<ge> 1\<close>, whose first attempt
  this is, begins what it writes with these commands.
\<close>

theorem to_mixed_recipients:
  assumes "reply_ok m" and "reply_code m = 250"
    and "list_all reply_ok rs" and "length rs = length as"
    and "inp (sock self) = wire m @ concat (map wire rs) @ rest"
    and "\<exists>r \<in> set rs. accepted r" and "\<exists>r \<in> set rs. \<not> accepted r"
  shows "written self (snd (to_attempt cmd self mf (Lst as)))
           = [''MAIL FROM: <'' @ mf @ ''>'' @ crlf]
               @ map (\<lambda>a. ''RCPT TO: <'' @ a @ ''>'' @ crlf) as @ [''DATA'' @ crlf] \<and>
         (\<forall>code resp. fst (to_attempt cmd self mf (Lst as))
                         \<noteq> Inl (AllRecipientsRefused code resp)) \<and>
         (1 \<le> retries \<longrightarrow>
            (\<exists>ws. written self (snd (to self (Lst as) (Some mf) retries))
                    = [''MAIL FROM: <'' @ mf @ ''>'' @ crlf]
                        @ map (\<lambda>a. ''RCPT TO: <'' @ a @ ''>'' @ crlf) as @ [''DATA'' @ crlf]
                        @ ws))"
proof -
  let ?m = "''MAIL FROM: <'' @ mf @ ''>''"
  let ?rcpts = "map (\<lambda>a. ''RCPT TO: <'' @ a @ ''>'' @ crlf) as"
  let ?self1 = "self\<lparr>sock := (sock self)\<lparr>out := out (sock self) @ [?m @ crlf],
                                         inp := concat (map wire rs) @ rest\<rparr>\<rparr>"
  let ?lm = "map (kept \<circ> snd) (fst m) @ [kept (snd (snd m))]"
  have c1: "cmd self ?m = (Inr (250, ?lm), ?self1)"
    using cmd_wire [OF assms(1) assms(5), of ?m] assms(2) by simp
  let ?self2 = "?self1\<lparr>sock := (sock ?self1)\<lparr>out := out (sock ?self1) @ ?rcpts, inp := rest\<rparr>\<rparr>"
  let ?n = "length (filter (\<lambda>r. \<not> accepted r) rs)"
  have "inp (sock ?self1) = concat (map wire rs) @ rest" by simp
  from rcpt_loop_wire [OF assms(3,4) this, of 0 250 ?lm]
  obtain code' resp' where
    l: "rcpt_loop cmd ?self1 as 0 250 ?lm = (Inr (?n, code', resp'), ?self2)"
    by auto
  from assms(6) have "?n < length rs"
    by (intro length_filter_less [where x = "SOME r. r \<in> set rs \<and> accepted r"])
       (auto intro: someI2_ex)
  with assms(4) have n: "?n \<noteq> length as" by simp
  obtain r3 self3 where d: "cmd ?self2 ''DATA'' = (r3, self3)"
    by (cases "cmd ?self2 ''DATA''")
  have o3: "out (sock self3) = out (sock ?self2) @ [''DATA'' @ crlf]"
    using cmd_logs [of "''DATA''" ?self2] d by simp
  have t: "to_attempt cmd self mf (Lst as) =
     (case r3 of Inl e \<Rightarrow> Inl e
      | Inr (code, resp) \<Rightarrow> if code \<noteq> 354 then Inl (DataRefused code resp)
                            else Inr (code, resp), self3)"
    using c1 l n d by (simp add: to_attempt_def split: sum.splits prod.splits)
  then have "snd (to_attempt cmd self mf (Lst as)) = self3" by simp
  with o3 have w: "written self (snd (to_attempt cmd self mf (Lst as)))
                     = [?m @ crlf] @ ?rcpts @ [''DATA'' @ crlf]"
    by (simp add: written_def)
  have "fst (to_attempt cmd self mf (Lst as)) \<noteq> Inl (AllRecipientsRefused code resp)"
    for code resp
  proof (cases r3)
    case (Inl e)
    with d cmd_errors [of ?self2 "''DATA''" e self3] t show ?thesis by auto
  next
    case (Inr p)
    with t show ?thesis by (auto split: prod.splits if_splits)
  qed
  moreover have "\<exists>ws. written self (snd (to self (Lst as) (Some mf) retries))
                    = [?m @ crlf] @ ?rcpts @ [''DATA'' @ crlf] @ ws" if "1 \<le> retries"
  proof -
    from that have "[0..<nat retries] = 0 # [1..<nat retries]"
      by (simp add: upt_conv_Cons)
    then have pr: "py_range retries = 0 # map int [1..<nat retries]"
      by (simp add: py_range_def)
    let ?a = "to_attempt cmd self mf (Lst as)"
    obtain ws where ws: "out (sock (snd (to_loop cmd (snd ?a) mf (Lst as) retries
                                (map int [1..<nat retries]))))
                           = out (sock (snd ?a)) @ ws"
      using to_loop_out [of cmd "snd ?a"] cmd_logs by blast
    from w have o: "out (sock (snd ?a)) = out (sock self) @ [?m @ crlf] @ ?rcpts @ [''DATA'' @ crlf]"
      using to_attempt_out [of cmd self mf "Lst as"] cmd_logs by (auto simp: written_def)
    have "snd (to self (Lst as) (Some mf) retries) = snd ?a
        \<or> snd (to self (Lst as) (Some mf) retries)
            = snd (to_loop cmd (snd ?a) mf (Lst as) retries (map int [1..<nat retries]))"
      by (cases ?a) (auto simp: to_def to_gen_def pr split: sum.splits)
    then show ?thesis
    proof
      assume "snd (to self (Lst as) (Some mf) retries) = snd ?a"
      with o show ?thesis by (simp add: written_def)
    next
      assume "snd (to self (Lst as) (Some mf) retries)
            = snd (to_loop cmd (snd ?a) mf (Lst as) retries (map int [1..<nat retries]))"
      with o ws show ?thesis by (simp add: written_def)
    qed
  qed
  ultimately show ?thesis using w by simp
qed

theorem to_mixed_recipients_witness:
  "written (session_of (wire ([], (''250'', ''ok'')) @ wire ([], (''250'', ''ok''))
                          @ wire ([], (''550'', ''no'')) @ wire ([], (''354'', ''go''))))
      (snd (to_attempt cmd
              (session_of (wire ([], (''250'', ''ok'')) @ wire ([], (''250'', ''ok''))
                             @ wire ([], (''550'', ''no'')) @ wire ([], (''354'', ''go''))))
              ''me@example.org'' (Lst [''a@example.org'', ''b@example.org''])))
     = [''MAIL FROM: <me@example.org>'' @ crlf, ''RCPT TO: <a@example.org>'' @ crlf,
        ''RCPT TO: <b@example.org>'' @ crlf, ''DATA'' @ crlf] \<and>
   fst (to_attempt cmd
          (session_of (wire ([], (''250'', ''ok'')) @ wire ([], (''250'', ''ok''))
                         @ wire ([], (''550'', ''no'')) @ wire ([], (''354'', ''go''))))
          ''me@example.org'' (Lst [''a@example.org'', ''b@example.org'']))
     = Inr (354, [''go''])"
proof -
  let ?m = "([], (''250'', ''ok'')) :: wreply"
  let ?rs = "[([], (''250'', ''ok'')), ([], (''550'', ''no''))] :: wreply list"
  let ?as = "[''a@example.org'', ''b@example.org'']"
  let ?rest = "wire ([], (''354'', ''go''))"
  let ?S = "session_of (wire ([], (''250'', ''ok'')) @ wire ([], (''250'', ''ok''))
                          @ wire ([], (''550'', ''no'')) @ wire ([], (''354'', ''go'')))"
  have ok: "reply_ok ?m" "list_all reply_ok ?rs"
    by (simp_all add: reply_ok_def line_ok_def code_ok_def text_ok_def is_digit_def)
  have c: "reply_code ?m = 250" by code_simp
  have len: "length ?rs = length ?as" by simp
  have i: "inp (sock ?S) = wire ?m @ concat (map wire ?rs) @ ?rest"
    by (simp add: session_of_def sock_of_def)
  have "accepted ([], (''250'', ''ok''))" by code_simp
  then have a: "\<exists>r \<in> set ?rs. accepted r" by simp
  have "\<not> accepted ([], (''550'', ''no''))" by code_simp
  then have r: "\<exists>r \<in> set ?rs. \<not> accepted r" by simp
  have v: "fst (to_attempt cmd ?S ''me@example.org'' (Lst ?as)) = Inr (354, [''go''])"
    by code_simp
  from to_mixed_recipients [OF ok(1) c ok(2) len i a r, of "''me@example.org''" 1] v
  show ?thesis by simp
qed

section \<open>\<open>send\<close> with the MIME headers\<close>

lemma sock_readline_250:
  "sock_readline (s\<lparr>inp := ''250 OK'' @ crlf @ rest\<rparr>) = (Inr (''250 OK'' @ crlf), s\<lparr>inp := rest\<rparr>)"
  by (rule sock_readline_line) simp

lemma line_250:
  "strip_ws (''250 OK'' @ crlf) = ''250 OK''" "py_int (take 3 ''250 OK'') = Inr 250"
  "py_int (take 3 (''250 OK'' @ crlf)) = Inr 250" "strip_ws (drop 4 (''250 OK'' @ crlf)) = ''OK''"
  "''250 OK'' @ crlf \<noteq> []"
  by code_simp+

text \<open>
  \<^bold>\<open>C8\<close>, as amended. \<open>send(content, mime=True)\<close> writes the two MIME header lines
  \<open>MIME-Version: 1.0\<close> and \<open>Content-Type: text/plain; charset=UTF-8\<close>, in umailesp.py
  followed by an empty line (a CRLF of its own), then the content if it is not empty, then
  the end of the data, CRLF dot CRLF; when the server then sends the line \<open>250 OK\<close>, the
  result is the code 250 with the text \<open>OK\<close>. In umailesp32.py no empty line follows the
  two headers.
\<close>

theorem send_mime:
  "inp (sock self) = ''250 OK'' @ crlf @ rest \<longrightarrow>
     send self content True =
       (Inr (250, ''OK''),
        self\<lparr>sock := (sock self)\<lparr>out := out (sock self) @ [mime_headers, crlf]
                                        @ (if content \<noteq> [] then [content] else []) @ [data_end],
                                    inp := rest\<rparr>\<rparr>) \<and>
     send32 self content True =
       (Inr (250, ''OK''),
        self\<lparr>sock := (sock self)\<lparr>out := out (sock self) @ [mime_headers]
                                        @ (if content \<noteq> [] then [content] else []) @ [data_end],
                                    inp := rest\<rparr>\<rparr>) \<and>
     mime_headers = ''MIME-Version: 1.0'' @ crlf @ ''Content-Type: text/plain; charset=UTF-8'' @ crlf \<and>
     data_end = crlf @ ''.'' @ crlf"
proof (intro impI conjI)
  assume i: "inp (sock self) = ''250 OK'' @ crlf @ rest"
  define line where "line = ''250 OK'' @ crlf"
  have l: "strip_ws line = ''250 OK''" "py_int (take 3 line) = Inr 250"
    "strip_ws (drop 4 line) = ''OK''" "line \<noteq> []"
    unfolding line_def by (rule line_250)+
  have l': "decode ''250 OK'' = Inr ''250 OK''" "py_int (cp_take 3 ''250 OK'') = Inr 250"
    "cp_drop 4 ''250 OK'' = ''OK''" "''250 OK'' \<noteq> []" "decode ''OK'' = Inr ''OK''"
    by code_simp+
  have rl: "sock_readline (s\<lparr>inp := ''250 OK'' @ crlf @ rest\<rparr>) = (Inr line, s\<lparr>inp := rest\<rparr>)" for s
    unfolding line_def by (rule sock_readline_250)
  let ?o = "out (sock self) @ [mime_headers, crlf]
              @ (if content \<noteq> [] then [content] else []) @ [data_end]"
  let ?self1 = "write_smtp (write_smtp self mime_headers) crlf"
  let ?self2 = "if content \<noteq> [] then write_smtp ?self1 content else ?self1"
  have s: "sock_write data_end (sock ?self2)
             = ((sock self)\<lparr>out := ?o\<rparr>)\<lparr>inp := ''250 OK'' @ crlf @ rest\<rparr>"
    using i by (simp add: write_smtp_def sock_write_def encode_def)
  have u: "?self2\<lparr>sock := s'\<rparr> = self\<lparr>sock := s'\<rparr>" for s'
    by (simp add: write_smtp_def)
  show "send self content True =
       (Inr (250, ''OK''), self\<lparr>sock := (sock self)\<lparr>out := ?o, inp := rest\<rparr>\<rparr>)"
    unfolding send_def Let_def if_True s rl prod.case sum.case l u
    by (simp only: l' if_False sum.case)
  let ?o' = "out (sock self) @ [mime_headers]
              @ (if content \<noteq> [] then [content] else []) @ [data_end]"
  let ?self1' = "write32 self mime_headers"
  let ?self2' = "if content \<noteq> [] then write32 ?self1' content else ?self1'"
  have s': "sock_write data_end (sock ?self2')
             = ((sock self)\<lparr>out := ?o'\<rparr>)\<lparr>inp := ''250 OK'' @ crlf @ rest\<rparr>"
    using i by (simp add: write32_def sock_write_def)
  have u': "?self2'\<lparr>sock := s'\<rparr> = self\<lparr>sock := s'\<rparr>" for s'
    by (simp add: write32_def)
  show "send32 self content True =
       (Inr (250, ''OK''), self\<lparr>sock := (sock self)\<lparr>out := ?o', inp := rest\<rparr>\<rparr>)"
    unfolding send32_def Let_def if_True s' rl prod.case sum.case u'
    by (simp only: l l' if_False sum.case)
qed (simp_all add: mime_headers_def data_end_def)

theorem send_mime_witness:
  "send (session_of (''250 OK'' @ crlf)) ''Hello'' True =
     (Inr (250, ''OK''),
      (session_of (''250 OK'' @ crlf))
        \<lparr>sock := (sock (session_of (''250 OK'' @ crlf)))
                   \<lparr>out := [mime_headers, crlf, ''Hello'', data_end], inp := []\<rparr>\<rparr>) \<and>
   send32 (session_of (''250 OK'' @ crlf)) ''Hello'' True =
     (Inr (250, ''OK''),
      (session_of (''250 OK'' @ crlf))
        \<lparr>sock := (sock (session_of (''250 OK'' @ crlf)))
                   \<lparr>out := [mime_headers, ''Hello'', data_end], inp := []\<rparr>\<rparr>)"
proof -
  have h: "inp (sock (session_of (''250 OK'' @ crlf))) = ''250 OK'' @ crlf @ []"
    by (simp add: session_of_def sock_of_def)
  have o: "out (sock (session_of (''250 OK'' @ crlf))) = []"
    by (simp add: session_of_def sock_of_def)
  have n: "(if ''Hello'' \<noteq> [] then [''Hello''] else []) = [''Hello'']" by simp
  have a: "[] @ [mime_headers, crlf] @ [''Hello''] @ [data_end]
             = [mime_headers, crlf, ''Hello'', data_end]"
    "[] @ [mime_headers] @ [''Hello''] @ [data_end] = [mime_headers, ''Hello'', data_end]"
    by simp_all
  from send_mime [of "session_of (''250 OK'' @ crlf)" "[]" "''Hello''", THEN mp, OF h]
  show ?thesis unfolding o n a by blast
qed

text \<open>
  The claim as it is written fails in umailesp.py: before \<open>Hello\<close> it has written three
  lines, the two headers and an empty one, so the bytes sent are not the two headers, the
  content and the end of the data.
\<close>

theorem send_mime_counterexample:
  "concat (written (session_of (''250 OK'' @ crlf))
             (snd (send (session_of (''250 OK'' @ crlf)) ''Hello'' True)))
     = mime_headers @ crlf @ ''Hello'' @ data_end \<and>
   mime_headers @ crlf @ ''Hello'' @ data_end \<noteq> mime_headers @ ''Hello'' @ data_end"
  by code_simp

section \<open>\<open>login\<close>: the choice of the mechanism\<close>

text \<open>The state after a status check is the state after the exchange.\<close>

lemma snd_status_check:
  "snd (case p of (Inl e, s) \<Rightarrow> (Inl e, s)
        | (Inr (code, resp), s) \<Rightarrow>
            if P code then (Inl (f code resp), s) else (g code resp s)) =
   (case p of (Inl e, s) \<Rightarrow> s
    | (Inr (code, resp), s) \<Rightarrow> if P code then s else snd (g code resp s))"
  by (auto split: prod.splits sum.splits)


lemma cmd_written_le:
  "\<exists>ws. out (sock (snd (cmd self c))) = out (sock self) @ ws \<and> length ws \<le> 1"
  by (subst cmd_sock(2) [OF surjective_pairing]) simp












section \<open>The constructor and STARTTLS\<close>

lemma cmd_wire_lines:
  assumes "reply_ok r" and "inp (sock self) = wire r @ rest" and "c \<noteq> ''Initial greeting''"
  shows "cmd self c =
     (Inr (reply_code r, reply_lines r),
      self\<lparr>sock := (sock self)\<lparr>out := out (sock self) @ [c @ crlf], inp := rest\<rparr>\<rparr>)"
  using cmd_wire [OF assms] by (simp add: reply_lines_def)

text \<open>Reading the greeting: the line is taken from the stream, and its first three
  characters are the code.\<close>

lemma greeting_line:
  assumes "code_ok gc" and "text_ok gt"
  shows "sock_readline (s\<lparr>inp := reply_line gc (CHR '' '') gt @ rest\<rparr>)
           = (Inr (reply_line gc (CHR '' '') gt), s\<lparr>inp := rest\<rparr>)"
    and "reply_line gc (CHR '' '') gt \<noteq> []"
    and "py_int (cp_take 3 (rstrip crlf (decode_replace (reply_line gc (CHR '' '') gt))))
           = Inr (digits_val gc)"
proof -
  from assms(1) have len: "length gc = 3" and dig: "list_all is_digit gc" and ne: "gc \<noteq> []"
    by (auto simp: code_ok_def)
  have "\<not> is_digit (CHR 0x0A)" by (simp add: is_digit_def)
  with dig have "CHR 0x0A \<notin> set gc"
    unfolding list_all_iff by blast
  with assms(2) have "CHR 0x0A \<notin> set (gc @ CHR '' '' # gt)"
    by (simp add: text_ok_def)
  then show "sock_readline (s\<lparr>inp := reply_line gc (CHR '' '') gt @ rest\<rparr>)
           = (Inr (reply_line gc (CHR '' '') gt), s\<lparr>inp := rest\<rparr>)"
    using sock_readline_line [where l = "gc @ CHR '' '' # gt" and s = s and rest = rest]
    by (simp add: reply_line_def)
  show "reply_line gc (CHR '' '') gt \<noteq> []" by (simp add: reply_line_def)
  from dig have single: "list_all (\<lambda>c. \<not> is_cont c) gc"
    by (simp add: list_all_iff is_digit_ascii ascii_not_cont)
  have sc: "\<not> is_cont (CHR '' '')" by (simp add: is_cont_def)
  have "rstrip crlf (decode_replace (reply_line gc (CHR '' '') gt))
          = gc @ CHR '' '' # rstrip crlf (decode_replace gt)"
    using dig by (simp add: decode_reply_line rstrip_reply_line)
  with cp_prefix [OF single sc, of "rstrip crlf (decode_replace gt)"] len
  have "cp_take 3 (rstrip crlf (decode_replace (reply_line gc (CHR '' '') gt))) = gc"
    by simp
  then show "py_int (cp_take 3 (rstrip crlf (decode_replace (reply_line gc (CHR '' '') gt))))
           = Inr (digits_val gc)"
    by (simp only: py_int_digits [OF ne dig])
qed

text \<open>The constructor up to the reply to the first \<open>EHLO\<close>, when the greeting has the
  code 220 and that reply the code 250.\<close>

lemma init_after_ehlo:
  assumes "connects" and "\<not> use_ssl"
    and "code_ok gc" and "text_ok gt" and "digits_val gc = 220"
    and "reply_ok e" and "reply_code e = 250"
    and "inp s0 = reply_line gc (CHR '' '') gt @ wire e @ rest0"
  shows "init b64 connects s0 use_ssl user password =
    (let self2 = \<lparr>username = user,
                   sock = s0\<lparr>out := out s0 @ [''EHLO 127.0.0.1'' @ crlf], inp := rest0\<rparr>\<rparr> in
     case (if ''STARTTLS'' \<in> set (reply_lines e) then starttls self2 else (Inr (), self2)) of
       (Inl e, self3) \<Rightarrow> (Inl e, self3)
     | (Inr u, self3) \<Rightarrow>
         if truthy user \<and> truthy password
         then (case login b64 self3 (the user) (the password) of
                 (Inl e, self4) \<Rightarrow> (Inl e, self4)
               | (Inr r, self4) \<Rightarrow> (Inr (), self4))
         else (Inr (), self3))"
proof -
  let ?g = "reply_line gc (CHR '' '') gt"
  have s0: "s0 = s0\<lparr>inp := ?g @ (wire e @ rest0)\<rparr>"
    using assms(8) by simp
  have rl: "sock_readline s0 = (Inr ?g, s0\<lparr>inp := wire e @ rest0\<rparr>)"
    by (subst s0) (rule greeting_line(1) [OF assms(3,4)])
  let ?self1 = "\<lparr>username = user, sock = s0\<lparr>inp := wire e @ rest0\<rparr>\<rparr>"
  have c: "cmd ?self1 ''EHLO 127.0.0.1'' =
     (Inr (250, reply_lines e),
      \<lparr>username = user, sock = s0\<lparr>out := out s0 @ [''EHLO 127.0.0.1'' @ crlf], inp := rest0\<rparr>\<rparr>)"
    using cmd_wire_lines [OF assms(6), of ?self1 rest0 "''EHLO 127.0.0.1''"] assms(7) by simp
  show ?thesis
    unfolding init_def Let_def
    using assms(1,2,5) rl greeting_line(2,3) [OF assms(3,4)] c
    by (simp add: CMD_EHLO_def LOCAL_DOMAIN_def CMD_STARTTLS_def)
qed

text \<open>The upgrade, when the server answers \<open>STARTTLS\<close> with a well-formed reply.\<close>

lemma starttls_refused:
  assumes "reply_ok t" and "inp (sock self) = wire t @ rest" and "reply_code t \<noteq> 220"
  shows "starttls self =
     (Inl (StartTLSFailed (reply_code t) (reply_lines t)),
      self\<lparr>sock := (sock self)\<lparr>out := out (sock self) @ [''STARTTLS'' @ crlf], inp := rest\<rparr>\<rparr>)"
  using cmd_wire_lines [OF assms(1,2), of "''STARTTLS''"] assms(3)
  by (simp add: starttls_def CMD_STARTTLS_def)

lemma starttls_wrap_fails:
  assumes "reply_ok t" and "inp (sock self) = wire t @ rest" and "reply_code t = 220"
    and "wrap_fails (sock self)"
  shows "starttls self =
     (Inl StartTLSWrapFailed,
      self\<lparr>sock := (sock self)\<lparr>out := out (sock self) @ [''STARTTLS'' @ crlf], inp := rest\<rparr>\<rparr>)"
  using cmd_wire_lines [OF assms(1,2), of "''STARTTLS''"] assms(3,4)
  by (simp add: starttls_def CMD_STARTTLS_def wrap_socket_def)

lemma starttls_upgraded:
  assumes "reply_ok t" and "inp (sock self) = wire t @ wire e2 @ rest" and "reply_code t = 220"
    and "\<not> wrap_fails (sock self)" and "reply_ok e2"
  shows "starttls self =
     (if reply_code e2 \<noteq> 250
      then Inl (EhloAfterStartTLSFailed (reply_code e2) (reply_lines e2)) else Inr (),
      self\<lparr>sock := (sock self)\<lparr>out := out (sock self)
                                      @ [''STARTTLS'' @ crlf, ''EHLO 127.0.0.1'' @ crlf],
                                  tls := True, inp := rest\<rparr>\<rparr>)"
proof -
  let ?self1 = "self\<lparr>sock := (sock self)\<lparr>out := out (sock self) @ [''STARTTLS'' @ crlf],
                                         inp := wire e2 @ rest\<rparr>\<rparr>"
  have c1: "cmd self ''STARTTLS'' = (Inr (220, reply_lines t), ?self1)"
    using cmd_wire_lines [OF assms(1,2), of "''STARTTLS''"] assms(3) by simp
  let ?self2 = "?self1\<lparr>sock := (sock ?self1)\<lparr>tls := True\<rparr>\<rparr>"
  have "inp (sock ?self2) = wire e2 @ rest" by simp
  from cmd_wire_lines [OF assms(5) this, of "''EHLO 127.0.0.1''"]
  have c2: "cmd ?self2 ''EHLO 127.0.0.1'' =
     (Inr (reply_code e2, reply_lines e2),
      ?self2\<lparr>sock := (sock ?self2)\<lparr>out := out (sock ?self2) @ [''EHLO 127.0.0.1'' @ crlf],
                                    inp := rest\<rparr>\<rparr>)"
    by simp
  show ?thesis
    using c1 c2 assms(4)
    by (simp add: starttls_def CMD_STARTTLS_def CMD_EHLO_def LOCAL_DOMAIN_def wrap_socket_def)
qed

text \<open>What is written only grows.\<close>

lemma cmd_grows:
  "\<exists>ws. out (sock (snd (cmd self c))) = out (sock self) @ ws"
  using cmd_written_le [of self c] by blast

lemma login_grows:
  "\<exists>ws. out (sock (snd (login b64 self user password))) = out (sock self) @ ws"
proof -
  let ?self1 = "self\<lparr>username := Some user\<rparr>"
  let ?cren = "strip_ws (b64 (plain_credentials user password))"
  obtain r2 self2 where c2: "cmd ?self1 ''EHLO 127.0.0.1'' = (r2, self2)"
    by (cases "cmd ?self1 ''EHLO 127.0.0.1''")
  obtain rp selfp where cp: "cmd self2 (''AUTH PLAIN '' @ ?cren) = (rp, selfp)"
    by (cases "cmd self2 (''AUTH PLAIN '' @ ?cren)")
  obtain r3 self3 where c3: "cmd self2 ''AUTH LOGIN'' = (r3, self3)"
    by (cases "cmd self2 ''AUTH LOGIN''")
  obtain r4 self4 where c4: "cmd self3 (strip_ws (b64 user)) = (r4, self4)"
    by (cases "cmd self3 (strip_ws (b64 user))")
  obtain r5 self5 where c5: "cmd self4 (strip_ws (b64 password)) = (r5, self5)"
    by (cases "cmd self4 (strip_ws (b64 password))")
  obtain w2 where o2: "out (sock self2) = out (sock self) @ w2"
    using cmd_grows [of ?self1 "''EHLO 127.0.0.1''"] c2 by auto
  obtain wp where op: "out (sock selfp) = out (sock self2) @ wp"
    using cmd_grows [of self2 "''AUTH PLAIN '' @ ?cren"] cp by auto
  obtain w3 where o3: "out (sock self3) = out (sock self2) @ w3"
    using cmd_grows [of self2 "''AUTH LOGIN''"] c3 by auto
  obtain w4 where o4: "out (sock self4) = out (sock self3) @ w4"
    using cmd_grows [of self3 "strip_ws (b64 user)"] c4 by auto
  obtain w5 where o5: "out (sock self5) = out (sock self4) @ w5"
    using cmd_grows [of self4 "strip_ws (b64 password)"] c5 by auto
  note defs = login_def Let_def CMD_EHLO_def LOCAL_DOMAIN_def CMD_AUTH_def AUTH_PLAIN_def
    AUTH_LOGIN_def
  have "snd (login b64 self user password) \<in> {self2, selfp, self3, self4, self5}"
  proof (cases "\<exists>resp auths. r2 = Inr (250, resp) \<and> parse_auths resp = Some auths \<and> auths \<noteq> []")
    case False
    then have "snd (login b64 self user password) = self2"
      using c2 by (cases r2) (auto simp: defs split: option.splits)
    then show ?thesis by simp
  next
    case True
    then obtain resp auths where h: "r2 = Inr (250, resp)" "parse_auths resp = Some auths"
      "auths \<noteq> []" by blast
    show ?thesis
    proof (cases "''PLAIN'' \<in> set auths")
      case True
      with h c2 cp have "snd (login b64 self user password) = selfp"
        by (simp add: defs split: prod.splits sum.splits)
      then show ?thesis by simp
    next
      case np: False
      show ?thesis
      proof (cases "''LOGIN'' \<in> set auths")
        case False
        with np h c2 have "snd (login b64 self user password) = self2"
          by (simp add: defs)
        then show ?thesis by simp
      next
        case True
        with np h c2 c3 c4 c5
        have "snd (login b64 self user password) = self3
            \<or> snd (login b64 self user password) = self4
            \<or> snd (login b64 self user password) = self5"
          by (auto simp: defs split: prod.splits sum.splits)
        then show ?thesis by auto
      qed
    qed
  qed
  with o2 op o3 o4 o5 show ?thesis by auto
qed

lemma starttls_grows:
  "\<exists>ws. out (sock (snd (starttls self))) = out (sock self) @ (''STARTTLS'' @ crlf) # ws"
proof -
  obtain r1 self1 where c1: "cmd self ''STARTTLS'' = (r1, self1)"
    by (cases "cmd self ''STARTTLS''")
  let ?self2 = "self1\<lparr>sock := (sock self1)\<lparr>tls := True\<rparr>\<rparr>"
  obtain r3 self3 where c3: "cmd ?self2 ''EHLO 127.0.0.1'' = (r3, self3)"
    by (cases "cmd ?self2 ''EHLO 127.0.0.1''")
  have o1: "out (sock self1) = out (sock self) @ [''STARTTLS'' @ crlf]"
    using cmd_logs [of "''STARTTLS''" self] c1 by simp
  obtain w3 where o3: "out (sock self3) = out (sock ?self2) @ w3"
    using cmd_grows [of ?self2 "''EHLO 127.0.0.1''"] c3 by auto
  have "snd (starttls self) = self1 \<or> snd (starttls self) = self3"
    using c1 c3
    by (auto simp: starttls_def CMD_STARTTLS_def CMD_EHLO_def LOCAL_DOMAIN_def wrap_socket_def
        split: prod.splits sum.splits if_splits)
  with o1 o3 show ?thesis by auto
qed

lemma init_sends_starttls:
  assumes "connects" and "\<not> use_ssl"
    and "code_ok gc" and "text_ok gt" and "digits_val gc = 220"
    and "reply_ok e" and "reply_code e = 250" and "''STARTTLS'' \<in> set (reply_lines e)"
    and "inp s0 = reply_line gc (CHR '' '') gt @ wire e @ rest0"
  shows "\<exists>ws. out (sock (snd (init b64 connects s0 use_ssl user password)))
              = out s0 @ [''EHLO 127.0.0.1'' @ crlf, ''STARTTLS'' @ crlf] @ ws"
proof -
  let ?self2 = "\<lparr>username = user,
                  sock = s0\<lparr>out := out s0 @ [''EHLO 127.0.0.1'' @ crlf], inp := rest0\<rparr>\<rparr>"
  obtain r3 self3 where t: "starttls ?self2 = (r3, self3)" by (cases "starttls ?self2")
  obtain w3 where o3: "out (sock self3) = out (sock ?self2) @ (''STARTTLS'' @ crlf) # w3"
    using starttls_grows [of ?self2] t by auto
  obtain r4 self4 where l: "login b64 self3 (the user) (the password) = (r4, self4)"
    by (cases "login b64 self3 (the user) (the password)")
  obtain w4 where o4: "out (sock self4) = out (sock self3) @ w4"
    using login_grows [of b64 self3 "the user" "the password"] l by auto
  have "snd (init b64 connects s0 use_ssl user password) = self3
      \<or> snd (init b64 connects s0 use_ssl user password) = self4"
    unfolding init_after_ehlo [OF assms(1-7,9)] Let_def
    using assms(8) t l by (auto split: sum.splits)
  with o3 o4 show ?thesis by auto
qed

text \<open>The constructor of umailesp32.py, when no credentials are given, writes nothing but
  its one \<open>EHLO\<close>.\<close>

text \<open>
  The constructor of umailesp.py upgrades the stream. Let the stream connect, direct
  transport security not be asked for, the greeting have the code 220 and the reply to
  \<open>EHLO\<close> the code 250 and a line that is \<open>STARTTLS\<close>. Then the constructor sends
  \<open>STARTTLS\<close> right after that \<open>EHLO\<close>, whatever follows. When the server answers
  \<open>STARTTLS\<close> with a well-formed reply: a code other than 220 aborts the constructor with
  \<open>STARTTLS failed\<close>, nothing more written and the stream not secured; the code 220 has
  the stream replaced by the secured one (if the handshake succeeds) and \<open>EHLO\<close> sent
  again on it, and then a code other than 250 aborts with \<open>EHLO after STARTTLS failed\<close>,
  while the code 250 lets the constructor go on (to \<open>login\<close> when both credentials are
  given, and to its end otherwise).
\<close>

lemma init_upgrades:
  assumes "connects" and "\<not> use_ssl"
    and "code_ok gc" and "text_ok gt" and "digits_val gc = 220"
    and "reply_ok e" and "reply_code e = 250" and "''STARTTLS'' \<in> set (reply_lines e)"
    and "inp s0 = reply_line gc (CHR '' '') gt @ wire e @ rest0"
  shows "(\<exists>ws. out (sock (snd (init b64 connects s0 use_ssl user password)))
               = out s0 @ [''EHLO 127.0.0.1'' @ crlf, ''STARTTLS'' @ crlf] @ ws) \<and>
    (\<forall>t rest. reply_ok t \<and> rest0 = wire t @ rest \<longrightarrow>
       (reply_code t \<noteq> 220 \<longrightarrow>
          init b64 connects s0 use_ssl user password =
            (Inl (StartTLSFailed (reply_code t) (reply_lines t)),
             \<lparr>username = user,
                sock = s0\<lparr>out := out s0 @ [''EHLO 127.0.0.1'' @ crlf, ''STARTTLS'' @ crlf],
                          inp := rest\<rparr>\<rparr>)) \<and>
       (reply_code t = 220 \<and> \<not> wrap_fails s0 \<longrightarrow>
          (\<forall>e2 rest'. reply_ok e2 \<and> rest = wire e2 @ rest' \<longrightarrow>
             (reply_code e2 \<noteq> 250 \<longrightarrow>
                init b64 connects s0 use_ssl user password =
                  (Inl (EhloAfterStartTLSFailed (reply_code e2) (reply_lines e2)),
                   \<lparr>username = user,
                      sock = s0\<lparr>out := out s0 @ [''EHLO 127.0.0.1'' @ crlf, ''STARTTLS'' @ crlf,
                                                  ''EHLO 127.0.0.1'' @ crlf],
                                tls := True, inp := rest'\<rparr>\<rparr>)) \<and>
             (reply_code e2 = 250 \<longrightarrow>
                init b64 connects s0 use_ssl user password =
                  (let ready = \<lparr>username = user,
                                 sock = s0\<lparr>out := out s0 @ [''EHLO 127.0.0.1'' @ crlf,
                                                             ''STARTTLS'' @ crlf,
                                                             ''EHLO 127.0.0.1'' @ crlf],
                                           tls := True, inp := rest'\<rparr>\<rparr>
                   in if truthy user \<and> truthy password
                      then (case login b64 ready (the user) (the password) of
                              (Inl e, self4) \<Rightarrow> (Inl e, self4)
                            | (Inr r, self4) \<Rightarrow> (Inr (), self4))
                      else (Inr (), ready))))))"
proof (intro conjI allI impI)
  show "\<exists>ws. out (sock (snd (init b64 connects s0 use_ssl user password)))
               = out s0 @ [''EHLO 127.0.0.1'' @ crlf, ''STARTTLS'' @ crlf] @ ws"
    by (rule init_sends_starttls [OF assms])
next
  fix t rest
  assume a: "reply_ok t \<and> rest0 = wire t @ rest" and c: "reply_code t \<noteq> 220"
  let ?self2 = "\<lparr>username = user,
                  sock = s0\<lparr>out := out s0 @ [''EHLO 127.0.0.1'' @ crlf], inp := rest0\<rparr>\<rparr>"
  from a have "reply_ok t" "inp (sock ?self2) = wire t @ rest" by simp_all
  from starttls_refused [OF this c]
  show "init b64 connects s0 use_ssl user password =
            (Inl (StartTLSFailed (reply_code t) (reply_lines t)),
             \<lparr>username = user,
                sock = s0\<lparr>out := out s0 @ [''EHLO 127.0.0.1'' @ crlf, ''STARTTLS'' @ crlf],
                          inp := rest\<rparr>\<rparr>)"
    unfolding init_after_ehlo [OF assms(1-7,9)] Let_def using assms(8) by simp
next
  fix t rest e2 rest'
  assume a: "reply_ok t \<and> rest0 = wire t @ rest" and c: "reply_code t = 220 \<and> \<not> wrap_fails s0"
    and b: "reply_ok e2 \<and> rest = wire e2 @ rest'" and d: "reply_code e2 \<noteq> 250"
  let ?self2 = "\<lparr>username = user,
                  sock = s0\<lparr>out := out s0 @ [''EHLO 127.0.0.1'' @ crlf], inp := rest0\<rparr>\<rparr>"
  from a b c have "reply_ok t" "inp (sock ?self2) = wire t @ wire e2 @ rest'"
    "reply_code t = 220" "\<not> wrap_fails (sock ?self2)" "reply_ok e2" by simp_all
  from starttls_upgraded [OF this] d
  show "init b64 connects s0 use_ssl user password =
                  (Inl (EhloAfterStartTLSFailed (reply_code e2) (reply_lines e2)),
                   \<lparr>username = user,
                      sock = s0\<lparr>out := out s0 @ [''EHLO 127.0.0.1'' @ crlf, ''STARTTLS'' @ crlf,
                                                  ''EHLO 127.0.0.1'' @ crlf],
                                tls := True, inp := rest'\<rparr>\<rparr>)"
    unfolding init_after_ehlo [OF assms(1-7,9)] Let_def using assms(8) by simp
next
  fix t rest e2 rest'
  assume a: "reply_ok t \<and> rest0 = wire t @ rest" and c: "reply_code t = 220 \<and> \<not> wrap_fails s0"
    and b: "reply_ok e2 \<and> rest = wire e2 @ rest'" and d: "reply_code e2 = 250"
  let ?self2 = "\<lparr>username = user,
                  sock = s0\<lparr>out := out s0 @ [''EHLO 127.0.0.1'' @ crlf], inp := rest0\<rparr>\<rparr>"
  from a b c have "reply_ok t" "inp (sock ?self2) = wire t @ wire e2 @ rest'"
    "reply_code t = 220" "\<not> wrap_fails (sock ?self2)" "reply_ok e2" by simp_all
  from starttls_upgraded [OF this] d
  show "init b64 connects s0 use_ssl user password =
                  (let ready = \<lparr>username = user,
                                 sock = s0\<lparr>out := out s0 @ [''EHLO 127.0.0.1'' @ crlf,
                                                             ''STARTTLS'' @ crlf,
                                                             ''EHLO 127.0.0.1'' @ crlf],
                                           tls := True, inp := rest'\<rparr>\<rparr>
                   in if truthy user \<and> truthy password
                      then (case login b64 ready (the user) (the password) of
                              (Inl e, self4) \<Rightarrow> (Inl e, self4)
                            | (Inr r, self4) \<Rightarrow> (Inr (), self4))
                      else (Inr (), ready))"
    unfolding init_after_ehlo [OF assms(1-7,9)] Let_def using assms(8) by simp
qed

text \<open>A run of it: greeting, \<open>EHLO\<close>, \<open>STARTTLS\<close>, the upgrade, \<open>EHLO\<close> again.\<close>

lemma init_upgrades_run:
  "init (\<lambda>s. s) True
      (sock_of (reply_line ''220'' (CHR '' '') ''mail.example.com ESMTP''
                  @ wire ([(''250'', ''STARTTLS'')], (''250'', ''AUTH PLAIN LOGIN''))
                  @ wire ([], (''220'', ''go'')) @ wire ([], (''250'', ''AUTH PLAIN LOGIN''))))
      False None None
   = (Inr (),
      \<lparr>username = None,
         sock = (sock_of (reply_line ''220'' (CHR '' '') ''mail.example.com ESMTP''
                  @ wire ([(''250'', ''STARTTLS'')], (''250'', ''AUTH PLAIN LOGIN''))
                  @ wire ([], (''220'', ''go'')) @ wire ([], (''250'', ''AUTH PLAIN LOGIN''))))
                \<lparr>out := [''EHLO 127.0.0.1'' @ crlf, ''STARTTLS'' @ crlf, ''EHLO 127.0.0.1'' @ crlf],
                   tls := True, inp := []\<rparr>\<rparr>)"
proof -
  let ?gt = "''mail.example.com ESMTP''"
  let ?e = "([(''250'', ''STARTTLS'')], (''250'', ''AUTH PLAIN LOGIN'')) :: wreply"
  let ?t = "([], (''220'', ''go'')) :: wreply"
  let ?e2 = "([], (''250'', ''AUTH PLAIN LOGIN'')) :: wreply"
  let ?s0 = "sock_of (reply_line ''220'' (CHR '' '') ?gt @ wire ?e @ wire ?t @ wire ?e2)"
  have h: "True" "\<not> False" "code_ok ''220''" "text_ok ?gt" "reply_ok ?e"
    by (simp_all add: code_ok_def text_ok_def reply_ok_def line_ok_def is_digit_def)
  have v: "digits_val ''220'' = 220" "reply_code ?e = 250" "''STARTTLS'' \<in> set (reply_lines ?e)"
    by code_simp+
  have i: "inp ?s0 = reply_line ''220'' (CHR '' '') ?gt @ wire ?e @ (wire ?t @ wire ?e2)"
    by (simp add: sock_of_def)
  have t: "reply_ok ?t \<and> wire ?t @ wire ?e2 = wire ?t @ (wire ?e2 @ [])"
    by (simp add: code_ok_def text_ok_def reply_ok_def line_ok_def is_digit_def)
  have c: "reply_code ?t = 220 \<and> \<not> wrap_fails ?s0"
    by (rule conjI, code_simp, simp add: sock_of_def)
  have e2: "reply_ok ?e2 \<and> wire ?e2 @ [] = wire ?e2 @ []"
    by (simp add: code_ok_def text_ok_def reply_ok_def line_ok_def is_digit_def)
  have c2: "reply_code ?e2 = 250" by code_simp
  have n: "\<not> (truthy None \<and> truthy None)" by (simp add: truthy_def)
  have o: "out ?s0 = []" by (simp add: sock_of_def)
  note th = init_upgrades [OF h(1,2,3,4) v(1) h(5) v(2,3) i, of "\<lambda>s. s" None None]
  from th have "\<forall>t rest. reply_ok t \<and> wire ?t @ wire ?e2 = wire t @ rest \<longrightarrow>
       (reply_code t = 220 \<and> \<not> wrap_fails ?s0 \<longrightarrow>
          (\<forall>e2 rest'. reply_ok e2 \<and> rest = wire e2 @ rest' \<longrightarrow>
             (reply_code e2 = 250 \<longrightarrow>
                init (\<lambda>s. s) True ?s0 False None None =
                  (let ready = \<lparr>username = None,
                                 sock = ?s0\<lparr>out := out ?s0 @ [''EHLO 127.0.0.1'' @ crlf,
                                                             ''STARTTLS'' @ crlf,
                                                             ''EHLO 127.0.0.1'' @ crlf],
                                           tls := True, inp := rest'\<rparr>\<rparr>
                   in if truthy None \<and> truthy None
                      then (case login (\<lambda>s. s) ready (the None) (the None) of
                              (Inl e, self4) \<Rightarrow> (Inl e, self4)
                            | (Inr r, self4) \<Rightarrow> (Inr (), self4))
                      else (Inr (), ready)))))"
    by blast
  from this [rule_format, OF t c e2 c2] n o
  show ?thesis by (simp add: Let_def)
qed

text \<open>
  The constructor of umailesp32.py never reads what the caller passed as \<open>ssl\<close>; without
  credentials it writes nothing but its one \<open>EHLO\<close>, whatever the server sends.
\<close>

lemma init32_ssl_ignored:
  "init32 b64 connects s0 True user password = init32 b64 connects s0 False user password"
  by (simp add: init32_def)

lemma init32_ehlo_once:
  assumes "\<not> (truthy user \<and> truthy password)"
  shows "out (sock (snd (init32 b64 connects s0 ssl_arg user password))) = out s0
       \<or> out (sock (snd (init32 b64 connects s0 ssl_arg user password)))
           = out s0 @ [''EHLO 127.0.0.1'' @ crlf]"
proof -
  let ?s1 = "s0\<lparr>tls := True\<rparr>"
  obtain r2 s2 where a: "sock_read 3 ?s1 = (r2, s2)" by (cases "sock_read 3 ?s1")
  obtain r3 s3 where b: "sock_readline s2 = (r3, s3)" by (cases "sock_readline s2")
  let ?self1 = "\<lparr>username = user, sock = s3\<rparr>"
  obtain r4 self4 where c: "cmd32 ?self1 ''EHLO 127.0.0.1'' = (r4, self4)"
    by (cases "cmd32 ?self1 ''EHLO 127.0.0.1''")
  have o2: "out s2 = out s0" using sock_read_frame [OF a] by (metis sock.select_convs(3) sock.surjective sock.update_convs(1) sock.update_convs(4))
  have o3: "out s3 = out s2" using sock_readline_frame [OF b] by (metis sock.select_convs(3) sock.surjective sock.update_convs(1))
  have o4: "out (sock self4) = out s3 @ [''EHLO 127.0.0.1'' @ crlf]"
    using cmd32_logs [of ?self1 "''EHLO 127.0.0.1''"] c by simp
  let ?r = "snd (init32 b64 connects s0 ssl_arg user password)"
  have "sock ?r = s0 \<or> sock ?r = s2 \<or> sock ?r = s3 \<or> ?r = self4"
    using assms a b c
    by (auto simp: init32_def Let_def wrap_socket_def CMD_EHLO_def LOCAL_DOMAIN_def
        split: sum.splits prod.splits if_splits)
  with o2 o3 o4 show ?thesis by auto
qed

text \<open>
  \<^bold>\<open>C2.\<close> The constructor of umailesp32.py does not do what the claim says. The caller
  passes \<open>ssl=False\<close> and no credentials; the server greets with the code 220 and answers
  \<open>EHLO\<close> with the one line \<open>250 STARTTLS\<close>, so the feature list that \<open>cmd\<close> returns holds
  the token \<open>STARTTLS\<close>. The constructor secures the stream before it reads the greeting
  (when that handshake fails it raises at once, with nothing read or written), writes
  its \<open>EHLO\<close> and ends: \<open>STARTTLS\<close> is never sent and no status 220 is asked for. On the
  same bytes the constructor of umailesp.py sends \<open>STARTTLS\<close> after its \<open>EHLO\<close>.
\<close>

theorem init32_never_sends_starttls:
  "fst (cmd32 (session_of (wire ([], (''250'', ''STARTTLS'')))) ''EHLO 127.0.0.1'')
     = Inr (250, [''STARTTLS'']) \<and>
   init32 (\<lambda>s. s) True
      (sock_of (reply_line ''220'' (CHR '' '') ''mail.example.com ESMTP''
                  @ wire ([], (''250'', ''STARTTLS''))))
      False None None
     = (Inr (),
        \<lparr>username = None,
           sock = \<lparr>inp = [], stalls = False, out = [''EHLO 127.0.0.1'' @ crlf], tls = True,
                    wrap_fails = False, closes = 0\<rparr>\<rparr>) \<and>
   init32 (\<lambda>s. s) True
      ((sock_of (reply_line ''220'' (CHR '' '') ''mail.example.com ESMTP''
                   @ wire ([], (''250'', ''STARTTLS''))))\<lparr>wrap_fails := True\<rparr>)
      False None None
     = (Inl OSError,
        \<lparr>username = None,
           sock = (sock_of (reply_line ''220'' (CHR '' '') ''mail.example.com ESMTP''
                              @ wire ([], (''250'', ''STARTTLS''))))\<lparr>wrap_fails := True\<rparr>\<rparr>) \<and>
   out (sock (snd (init (\<lambda>s. s) True
      (sock_of (reply_line ''220'' (CHR '' '') ''mail.example.com ESMTP''
                  @ wire ([], (''250'', ''STARTTLS''))))
      False None None)))
     = [''EHLO 127.0.0.1'' @ crlf, ''STARTTLS'' @ crlf]"
  by code_simp

end
